theory Spec2Isabelle
  imports Main "HOL-Library.AList" "HOL-Library.List_Lexorder" "HOL-Library.Char_ord"
    "HOL-Library.Word"
begin

section \<open>The predicate synthesizer (pkg/resolver/rbacHelper.go)\<close>

subsection \<open>Expressions of the query builder\<close>

text \<open>
  The synthesizer builds its filter with the goqu query builder. Only the expression
  shapes that rbacHelper.go builds are represented, one constructor per shape:
  \<^item> \<open>NilExpression\<close>: the nil interface value (\<^verbatim>\<open>var whereCsDs exp.ExpressionList\<close>
    before any assignment);
  \<^item> \<open>NotHasKey k\<close>: \<^verbatim>\<open>goqu.L("NOT(???)", goqu.C("data"), goqu.Literal("?"), k)\<close>;
  \<^item> \<open>HasKey k\<close>: \<^verbatim>\<open>goqu.L("???", goqu.C("data"), goqu.Literal("?"), k)\<close>;
  \<^item> \<open>FieldHas f v\<close>: \<^verbatim>\<open>goqu.L("???", goqu.L(`data->?`, f), goqu.Literal("?"), v)\<close>;
  \<^item> \<open>FieldHasAnyOf f t g\<close>: \<^verbatim>\<open>goqu.L("???", goqu.L(`data->?`, f), goqu.Literal("?|"),
    goqu.From(t).Select(goqu.L("resList")).Where(goqu.C("type").Eq(g)))\<close>;
  \<^item> \<open>ExpressionList op args\<close>: an expression list joined by AND or by OR.
\<close>

datatype ExpressionListType = AndType | OrType

datatype Expression =
    NilExpression
  | NotHasKey string
  | HasKey string
  | FieldHas string string
  | FieldHasAnyOf string string string
  | ExpressionList ExpressionListType "Expression list"

text \<open>
  \<open>IsEmpty\<close> is the method of that name of an expression list: the list has no
  members. Every other expression, the nil interface value included, is not an empty
  expression list.
\<close>

fun IsEmpty :: "Expression \<Rightarrow> bool" where
  "IsEmpty (ExpressionList op args) = (args = [])"
| "IsEmpty _ = False"

text \<open>
  \<^verbatim>\<open>goqu.And(args...)\<close> and \<^verbatim>\<open>goqu.Or(args...)\<close> go through the builder's
  \<^verbatim>\<open>exp.NewExpressionList\<close>, which leaves out every argument that is itself an empty
  expression list and keeps all others (a nil argument included). This is what the
  comments of rbacHelper.go call "an empty clause": it contributes nothing to the list
  that encloses it.
\<close>

definition NewExpressionList :: "ExpressionListType \<Rightarrow> Expression list \<Rightarrow> Expression" where
  "NewExpressionList op args = ExpressionList op (filter (\<lambda>e. \<not> IsEmpty e) args)"

definition goqu_And :: "Expression list \<Rightarrow> Expression" where
  "goqu_And args = NewExpressionList AndType args"

definition goqu_Or :: "Expression list \<Rightarrow> Expression" where
  "goqu_Or args = NewExpressionList OrType args"

subsection \<open>The permission snapshot as the resolver sees it\<close>

text \<open>
  \<^verbatim>\<open>rbac.Resource\<close>, \<^verbatim>\<open>rbac.UserData\<close> and \<^verbatim>\<open>v1.UserInfo\<close> are used by rbacHelper.go
  through the fields below. A Go map is an association list with distinct keys, in the
  order in which a \<^verbatim>\<open>range\<close> loop happens to visit it; a read of a missing key gives
  the zero value.
\<close>

record Resource =
  Apigroup :: string
  Kind :: string

record UserData =
  CsResources :: "Resource list"
  NsResources :: "(string \<times> Resource list) list"
  ConsolidatedNsResources :: "(string \<times> string list) list"
  NsResourceGroups :: "(string \<times> string) list"

record UserInfo =
  Username :: string
  UID :: string

type_synonym error = string

subsection \<open>matchApigroupKind\<close>

text \<open>
  The loop of \<^verbatim>\<open>matchApigroupKind\<close>: \<open>i\<close> is the loop index, \<open>whereCsDs\<close> the
  clause built so far. An entry with both fields \<^verbatim>\<open>"*"\<close> returns \<^verbatim>\<open>goqu.Or()\<close> at once.
\<close>

definition apigroupKindFilters :: "Resource \<Rightarrow> Expression list" where
  "apigroupKindFilters clusterRes =
     (let whereOrDs = [];
          whereOrDs =
            (if Apigroup clusterRes \<noteq> ''*''
             then whereOrDs @
                    [if Apigroup clusterRes = '''' then NotHasKey ''apigroup''
                     else FieldHas ''apigroup'' (Apigroup clusterRes)]
             else whereOrDs);
          whereOrDs =
            (if Kind clusterRes \<noteq> ''*''
             then whereOrDs @ [FieldHas ''kind_plural'' (Kind clusterRes)]
             else whereOrDs)
      in whereOrDs)"

fun matchApigroupKind_loop :: "nat \<Rightarrow> Resource list \<Rightarrow> Expression \<Rightarrow> Expression" where
  "matchApigroupKind_loop i [] whereCsDs = whereCsDs"
| "matchApigroupKind_loop i (clusterRes # rest) whereCsDs =
     (let whereOrDs = apigroupKindFilters clusterRes
      in if Apigroup clusterRes = ''*'' \<and> Kind clusterRes = ''*'' then goqu_Or []
         else if i = 0 then matchApigroupKind_loop (Suc i) rest (goqu_And whereOrDs)
         else matchApigroupKind_loop (Suc i) rest (goqu_Or [whereCsDs, goqu_And whereOrDs]))"

definition matchApigroupKind :: "Resource list \<Rightarrow> Expression" where
  "matchApigroupKind resources = matchApigroupKind_loop 0 resources NilExpression"

subsection \<open>matchClusterScopedResources\<close>

definition matchClusterScopedResources :: "Resource list \<Rightarrow> UserInfo \<Rightarrow> Expression" where
  "matchClusterScopedResources csRes userInfo =
     (if length csRes = 0 then goqu_Or []
      else if length csRes = 1 \<and> Apigroup (csRes ! 0) = ''*'' \<and> Kind (csRes ! 0) = ''*''
        then goqu_Or []
      else goqu_And [NotHasKey ''namespace'', matchApigroupKind csRes])"

subsection \<open>Go maps and their keys\<close>

definition map_get :: "('k \<times> 'v) list \<Rightarrow> 'k \<Rightarrow> 'v \<Rightarrow> 'v" where
  "map_get m k zero = (case map_of m k of Some v \<Rightarrow> v | None \<Rightarrow> zero)"

text \<open>
  Modelled from the spec: \<^verbatim>\<open>rbac.GetKeys\<close>, whose body is not among the verified sources. The
  spec asks of the key sequence only that it be "a deterministic ordering of group keys
  so that generated predicates are stable across runs for a given snapshot". The model
  returns each key of the map once, in ascending order: an ordering that depends on the
  key set alone and not on the order in which the map is visited.
\<close>

definition GetKeys :: "(string \<times> 'v) list \<Rightarrow> string list" where
  "GetKeys m = sort (remdups (map fst m))"

subsection \<open>matchNamespacedResources\<close>

text \<open>\<^verbatim>\<open>"lookup_" + strings.ReplaceAll(userInfo.UID, "-", "_")\<close>\<close>

definition lookupTableName :: "string \<Rightarrow> string" where
  "lookupTableName uid = ''lookup_'' @ map (\<lambda>c. if c = CHR ''-'' then CHR ''_'' else c) uid"

text \<open>
  The first loop of \<^verbatim>\<open>matchNamespacedResources\<close>, over the keys of the consolidated
  map. \<open>json_Unmarshal\<close> stands for \<^verbatim>\<open>json.Unmarshal\<close> into a \<^verbatim>\<open>[]rbac.Resource\<close>; the
  loop stops at the first key that does not unmarshal and hands the error back. The
  slice \<open>whereNsDs\<close> is written by index; the index stays below its length because the
  keys come from the map whose length the slice has.
\<close>

fun consolidatedLoop ::
  "(string \<Rightarrow> error + Resource list) \<Rightarrow> UserData \<Rightarrow> UserInfo \<Rightarrow> nat \<Rightarrow> string list \<Rightarrow>
   Expression list \<Rightarrow> Expression list \<times> error option" where
  "consolidatedLoop json_Unmarshal userData userInfo count [] whereNsDs = (whereNsDs, None)"
| "consolidatedLoop json_Unmarshal userData userInfo count (resources # keys) whereNsDs =
     (let groupName = map_get (NsResourceGroups userData) resources [];
          tableName = lookupTableName (UID userInfo)
      in case json_Unmarshal resources of
           Inr resList \<Rightarrow>
             consolidatedLoop json_Unmarshal userData userInfo (Suc count) keys
               (whereNsDs[count :=
                  goqu_And [FieldHasAnyOf ''namespace'' tableName groupName,
                            matchApigroupKind resList]])
         | Inl unMarshalErr \<Rightarrow> (whereNsDs, Some unMarshalErr))"

text \<open>The second loop, one clause per namespace; it runs when unmarshalling failed.\<close>

fun nonConsolidatedLoop ::
  "UserData \<Rightarrow> nat \<Rightarrow> string list \<Rightarrow> Expression list \<Rightarrow> Expression list" where
  "nonConsolidatedLoop userData nsCount [] whereNsDs = whereNsDs"
| "nonConsolidatedLoop userData nsCount (namespace # namespaces) whereNsDs =
     nonConsolidatedLoop userData (Suc nsCount) namespaces
       (whereNsDs[nsCount :=
          goqu_And [FieldHas ''namespace'' namespace,
                    matchApigroupKind (map_get (NsResources userData) namespace [])]])"

definition matchNamespacedResources ::
  "(string \<Rightarrow> error + Resource list) \<Rightarrow> UserData \<Rightarrow> UserInfo \<Rightarrow> Expression" where
  "matchNamespacedResources json_Unmarshal userData userInfo =
     (let namespaces = GetKeys (NsResources userData)
      in if length (NsResources userData) < 1 then goqu_Or []
         else if length (NsResources userData) = 1 \<and> namespaces ! 0 = ''*'' then goqu_Or []
         else
           (let consolidateNsList = ConsolidatedNsResources userData;
                keys = GetKeys (ConsolidatedNsResources userData);
                whereNsDs = replicate (length consolidateNsList) NilExpression;
                (whereNsDs, unMarshalErr) =
                   consolidatedLoop json_Unmarshal userData userInfo 0 keys whereNsDs;
                whereNsDs =
                  (if unMarshalErr \<noteq> None
                   then nonConsolidatedLoop userData 0 namespaces
                          (replicate (length (NsResources userData)) NilExpression)
                   else whereNsDs)
            in goqu_Or whereNsDs))"

subsection \<open>consolidateNsResources\<close>

text \<open>
  \<open>json_Marshal\<close> stands for \<^verbatim>\<open>json.Marshal\<close> of a \<^verbatim>\<open>[]rbac.Resource\<close>. The loop visits
  the namespaces in the order of the association list; the map \<open>m\<close> under construction
  gets the namespace appended to the group of its serialized resources. A marshalling
  error ends the function with that error and no map.
\<close>

fun consolidateNsResources_loop ::
  "(Resource list \<Rightarrow> error + string) \<Rightarrow> (string \<times> Resource list) list \<Rightarrow>
   (string \<times> string list) list \<Rightarrow> error + (string \<times> string list) list" where
  "consolidateNsResources_loop json_Marshal [] m = Inr m"
| "consolidateNsResources_loop json_Marshal ((ns, resources) # rest) m =
     (case json_Marshal resources of
        Inr b \<Rightarrow>
          (case map_of m b of
             Some found \<Rightarrow>
               consolidateNsResources_loop json_Marshal rest (AList.update b (found @ [ns]) m)
           | None \<Rightarrow> consolidateNsResources_loop json_Marshal rest (AList.update b [ns] m))
      | Inl err \<Rightarrow> Inl err)"

definition consolidateNsResources ::
  "(Resource list \<Rightarrow> error + string) \<Rightarrow> (string \<times> Resource list) list \<Rightarrow>
   error + (string \<times> string list) list \<times> string list" where
  "consolidateNsResources json_Marshal nsResources =
     (case consolidateNsResources_loop json_Marshal nsResources [] of
        Inr m \<Rightarrow> Inr (m, GetKeys m)
      | Inl err \<Rightarrow> Inl err)"

subsection \<open>matchHubCluster\<close>


subsection \<open>What an expression selects\<close>

text \<open>
  The rows that the rendered clause selects. A row is the \<^verbatim>\<open>data\<close> column, a JSON
  object whose properties are strings; \<open>lookup t g\<close> is the \<^verbatim>\<open>resList\<close> array of the
  row of table \<open>t\<close> whose \<^verbatim>\<open>type\<close> is \<open>g\<close>. An expression list without members renders
  no condition at all; a nil expression renders as \<^verbatim>\<open>NULL\<close>, which selects no row.
\<close>

fun holds ::
  "(string \<Rightarrow> string \<Rightarrow> string list) \<Rightarrow> (string \<times> string) list \<Rightarrow> Expression \<Rightarrow> bool" where
  "holds lookup data NilExpression = False"
| "holds lookup data (NotHasKey k) = (map_of data k = None)"
| "holds lookup data (HasKey k) = (map_of data k \<noteq> None)"
| "holds lookup data (FieldHas f v) = (map_of data f = Some v)"
| "holds lookup data (FieldHasAnyOf f t g) =
     (case map_of data f of None \<Rightarrow> False | Some v \<Rightarrow> v \<in> set (lookup t g))"
| "holds lookup data (ExpressionList op args) =
     (args = [] \<or>
      (case op of
         AndType \<Rightarrow> list_all (holds lookup data) args
       | OrType \<Rightarrow> list_ex (holds lookup data) args))"

subsection \<open>A sample snapshot\<close>

text \<open>
  The snapshot of the spec's consolidation example: namespaces \<open>ns1\<close> and \<open>ns2\<close> with the
  same grant, \<open>ns3\<close> with another one. The sample marshaller and unmarshaller are defined
  on the two resource sequences of the example only.
\<close>

abbreviation (input) sample_r1 :: Resource where
  "sample_r1 \<equiv> \<lparr>Apigroup = ''g1'', Kind = ''k1''\<rparr>"

abbreviation (input) sample_r2 :: Resource where
  "sample_r2 \<equiv> \<lparr>Apigroup = ''g2'', Kind = ''k2''\<rparr>"

abbreviation (input) sample_key1 :: string where
  "sample_key1 \<equiv> ''[{\"Apigroup\":\"g1\",\"Kind\":\"k1\"}]''"

abbreviation (input) sample_key2 :: string where
  "sample_key2 \<equiv> ''[{\"Apigroup\":\"g2\",\"Kind\":\"k2\"}]''"

abbreviation (input) sample_Marshal :: "Resource list \<Rightarrow> error + string" where
  "sample_Marshal \<equiv> (\<lambda>rs. if rs = [sample_r1] then Inr sample_key1
                           else if rs = [sample_r2] then Inr sample_key2
                           else Inl ''json: unsupported value'')"

abbreviation (input) sample_Unmarshal :: "string \<Rightarrow> error + Resource list" where
  "sample_Unmarshal \<equiv> (\<lambda>b. if b = sample_key1 then Inr [sample_r1]
                            else if b = sample_key2 then Inr [sample_r2]
                            else Inl ''unexpected end of JSON input'')"

abbreviation (input) sample_nsResources :: "(string \<times> Resource list) list" where
  "sample_nsResources \<equiv>
     [(''ns3'', [sample_r2]), (''ns1'', [sample_r1]), (''ns2'', [sample_r1])]"

abbreviation (input) sample_nsResources' :: "(string \<times> Resource list) list" where
  "sample_nsResources' \<equiv>
     [(''ns1'', [sample_r1]), (''ns2'', [sample_r1]), (''ns3'', [sample_r2])]"

abbreviation (input) sample_groups :: "(string \<times> string list) list" where
  "sample_groups \<equiv> [(sample_key2, [''ns3'']), (sample_key1, [''ns1'', ''ns2''])]"

abbreviation (input) sample_userData :: UserData where
  "sample_userData \<equiv>
     \<lparr>CsResources = [], NsResources = sample_nsResources,
      ConsolidatedNsResources = sample_groups,
      NsResourceGroups = [(sample_key1, ''group1''), (sample_key2, ''group2'')]\<rparr>"

abbreviation (input) sample_userInfo :: UserInfo where
  "sample_userInfo \<equiv> \<lparr>Username = ''alice'', UID = ''u-1''\<rparr>"

abbreviation (input) sample_lookup :: "string \<Rightarrow> string \<Rightarrow> string list" where
  "sample_lookup \<equiv>
     (\<lambda>t g. if t = ''lookup_u_1'' \<and> g = ''group1'' then [''ns1'', ''ns2'']
            else if t = ''lookup_u_1'' \<and> g = ''group2'' then [''ns3''] else [])"

abbreviation (input) sample_row :: "(string \<times> string) list" where
  "sample_row \<equiv> [(''namespace'', ''ns2''), (''apigroup'', ''g1''), (''kind_plural'', ''k1'')]"

section \<open>The permission cache (package rbac)\<close>

subsection \<open>Time\<close>

text \<open>
  A \<^verbatim>\<open>time.Time\<close> is the number of nanoseconds since the zero time, the value of a
  field that was never set; \<^verbatim>\<open>t.Add(d)\<close> is \<open>t + d\<close> and \<^verbatim>\<open>t.Before(u)\<close> is
  \<open>t < u\<close>. A \<^verbatim>\<open>time.Duration\<close> is a 64-bit count of nanoseconds:
  \<^verbatim>\<open>time.Duration(config.Cfg.UserCacheTTL) * time.Millisecond\<close> multiplies in 64 bits
  and wraps around.
\<close>

definition UserCacheTTL_Duration :: "int \<Rightarrow> int" where
  "UserCacheTTL_Duration ttl = sint ((word_of_int ttl :: 64 word) * 1000000)"

subsection \<open>The API server and the clock\<close>

text \<open>
  What the cluster answers during one request. \<open>clock n\<close> is the \<open>n\<close>-th reading of
  \<^verbatim>\<open>time.Now()\<close>. \<open>NewForConfig\<close> is the error of \<^verbatim>\<open>kubernetes.NewForConfig\<close> for the
  service's own configuration, \<open>NewForConfig_Impersonate\<close> the one for the configuration
  that impersonates a user name and UID (\<open>None\<close>: a clientset). A call of the typed
  client gives a result pointer, \<open>None\<close> when it is nil, together with an error.
\<close>

record Namespace =
  Name :: string
  Labels :: "(string \<times> string) list"

record ResourceRule =
  Verbs :: "string list"
  APIGroups :: "string list"
  Resources :: "string list"

datatype AuthorizationV1Interface =
    ImpersonationClient string string
  | SuppliedClient nat

record kube =
  clock :: "nat \<Rightarrow> int"
  NewForConfig :: "error option"
  NewForConfig_Impersonate :: "string \<Rightarrow> string \<Rightarrow> error option"
  Namespaces_List :: "Namespace list option \<times> error option"
  SelfSubjectAccessReviews_Create ::
    "AuthorizationV1Interface \<Rightarrow> string \<Rightarrow> string \<Rightarrow> error + bool"
  SelfSubjectRulesReviews_Create ::
    "AuthorizationV1Interface \<Rightarrow> string \<Rightarrow> ResourceRule list option \<times> error option"

text \<open>
  The effects of a request besides the cache: how often the clock was read, and which
  calls went to the API server, in order.
\<close>

datatype api_call =
    ListNamespaces
  | AccessReview string string
  | RulesReview string

record sys =
  ticks :: nat
  calls :: "api_call list"

definition time_Now :: "kube \<Rightarrow> sys \<Rightarrow> int \<times> sys" where
  "time_Now k s = (clock k (ticks s), s\<lparr>ticks := Suc (ticks s)\<rparr>)"

text \<open>A function either returns or panics on a nil pointer.\<close>

datatype 'a outcome = Returned 'a | Panic

subsection \<open>The cache\<close>

record resource =
  apigroup :: string
  kind :: string

text \<open>The three mutexes of \<open>userData\<close> are left out: one request runs at a time.\<close>

record userData =
  managedClusters :: "(string \<times> string) list"
  csResources :: "resource list"
  nsResources :: "(string \<times> resource list) list"
  clustersErr :: "error option"
  clustersUpdatedAt :: int
  csrErr :: "error option"
  csrUpdatedAt :: int
  nsrErr :: "error option"
  nsrUpdatedAt :: int
  authzClient :: "AuthorizationV1Interface option"

text \<open>\<^verbatim>\<open>&userData{}\<close>\<close>

definition new_userData :: userData where
  "new_userData =
     \<lparr>managedClusters = [], csResources = [], nsResources = [], clustersErr = None,
      clustersUpdatedAt = 0, csrErr = None, csrUpdatedAt = 0, nsrErr = None,
      nsrUpdatedAt = 0, authzClient = None\<rparr>"

text \<open>
  Of the cache, the fields that the functions below read: the token reviews (a pointer
  per token, so that an unknown token is a nil pointer), the shared data and the users.
\<close>

record SharedData =
  shared_namespaces :: "string list"
  shared_csResources :: "resource list"
  shared_nsErr :: "error option"

record Cache =
  tokenReviews :: "(string \<times> UserInfo) list"
  shared :: SharedData
  users :: "(string \<times> userData) list"

subsection \<open>userCacheValid\<close>

definition userCacheValid :: "kube \<Rightarrow> int \<Rightarrow> userData \<Rightarrow> sys \<Rightarrow> bool \<times> sys" where
  "userCacheValid k ttl user s =
     (let (now, s) = time_Now k s
      in if now < csrUpdatedAt user + UserCacheTTL_Duration ttl
         then (let (now, s) = time_Now k s
               in if now < nsrUpdatedAt user + UserCacheTTL_Duration ttl then (True, s)
                  else (False, s))
         else (False, s))"

subsection \<open>getImpersonationClientSet\<close>

definition getImpersonationClientSet ::
  "kube \<Rightarrow> Cache \<Rightarrow> string \<Rightarrow> userData \<Rightarrow>
   ((error + AuthorizationV1Interface) \<times> userData) outcome" where
  "getImpersonationClientSet k cache clientToken user =
     (case authzClient user of
        Some c \<Rightarrow> Returned (Inr c, user)
      | None \<Rightarrow>
          (case map_of (tokenReviews cache) clientToken of
             None \<Rightarrow> Panic
           | Some review \<Rightarrow>
               (case NewForConfig_Impersonate k (Username review) (UID review) of
                  Some err \<Rightarrow> Returned (Inl err, user)
                | None \<Rightarrow>
                    (let clientset = ImpersonationClient (Username review) (UID review);
                         user = user\<lparr>authzClient := Some clientset\<rparr>
                     in Returned (Inr clientset, user)))))"

subsection \<open>getManagedClusters\<close>

fun strings_Contains :: "string \<Rightarrow> string \<Rightarrow> bool" where
  "strings_Contains [] substr = (substr = [])"
| "strings_Contains (c # s) substr =
     (take (length substr) (c # s) = substr \<or> strings_Contains s substr)"

definition getFromMap :: "(string \<times> string) list \<Rightarrow> string \<Rightarrow> string list" where
  "getFromMap managedClusterNames mapPartStr =
     (if mapPartStr = ''keys'' then map fst managedClusterNames
      else if mapPartStr = ''values'' then map snd managedClusterNames
      else [])"

text \<open>The loop over the labels of a namespace stops at the first key with the marker.\<close>

fun managedClusterLabel :: "(string \<times> string) list \<Rightarrow> string option" where
  "managedClusterLabel [] = None"
| "managedClusterLabel ((labels, v) # rest) =
     (if strings_Contains labels ''managedCluster'' then Some labels
      else managedClusterLabel rest)"

fun managedClusters_loop ::
  "Namespace list \<Rightarrow> (string \<times> string) list \<Rightarrow> (string \<times> string) list" where
  "managedClusters_loop [] m = m"
| "managedClusters_loop (namespace # rest) m =
     (case managedClusterLabel (Labels namespace) of
        Some labels \<Rightarrow> managedClusters_loop rest (AList.update (Name namespace) labels m)
      | None \<Rightarrow> managedClusters_loop rest m)"

text \<open>
  \<open>managedClusters_fresh\<close> is the condition of the first \<^verbatim>\<open>if\<close>: the map is not
  empty, it was updated less than the TTL ago, and its first value has the marker; the
  clock is read only when the map is not empty. The result of \<open>getManagedClusters\<close> is
  the returned pair of map and error, the user data as the function left them, and the
  effects. The error of \<^verbatim>\<open>kubernetes.NewForConfig\<close> is only logged; the
  nil clientset is then dereferenced. The error of the listing is dropped
  (\<^verbatim>\<open>namespaceList, _ := ...\<close>) and the items of the list are read whatever it was.
\<close>

definition managedClusters_fresh :: "kube \<Rightarrow> int \<Rightarrow> userData \<Rightarrow> sys \<Rightarrow> bool \<times> sys" where
  "managedClusters_fresh k ttl user s =
     (if length (managedClusters user) > 0
      then (let (now, s) = time_Now k s
            in (now < clustersUpdatedAt user + UserCacheTTL_Duration ttl \<and>
                strings_Contains (getFromMap (managedClusters user) ''values'' ! 0)
                  ''managedCluster'', s))
      else (False, s))"

definition getManagedClusters ::
  "kube \<Rightarrow> int \<Rightarrow> userData \<Rightarrow> sys \<Rightarrow>
   (((string \<times> string) list \<times> error option) \<times> userData \<times> sys) outcome" where
  "getManagedClusters k ttl user s =
     (let (fresh, s) = managedClusters_fresh k ttl user s
      in if fresh
         then (let user = user\<lparr>clustersErr := None\<rparr>
               in Returned ((managedClusters user, clustersErr user), user, s))
         else
           (case NewForConfig k of
              Some err \<Rightarrow> Panic
            | None \<Rightarrow>
                (let user = user\<lparr>managedClusters := []\<rparr>;
                     s = s\<lparr>calls := calls s @ [ListNamespaces]\<rparr>;
                     (namespaceList, _) = Namespaces_List k
                 in case namespaceList of
                      None \<Rightarrow> Panic
                    | Some items \<Rightarrow>
                        (let user = user\<lparr>managedClusters :=
                                      managedClusters_loop items (managedClusters user)\<rparr>;
                             (now, s) = time_Now k s;
                             user = user\<lparr>clustersUpdatedAt := now\<rparr>;
                             user = user\<lparr>clustersErr := None\<rparr>
                         in Returned ((managedClusters user, clustersErr user), user, s)))))"

subsection \<open>intersection\<close>

definition intersection :: "string list \<Rightarrow> string list \<Rightarrow> string list \<times> error option" where
  "intersection a1 a2 = (filter (\<lambda>x. list_ex (\<lambda>y. x = y) a2) a1, None)"

subsection \<open>getNamespacedResources\<close>

text \<open>
  The four nested loops over the rules of one namespace: every rule with the verb
  \<^verbatim>\<open>list\<close> or \<^verbatim>\<open>*\<close> appends, for each of its resources and each of its API groups, an
  entry to the sequence of the namespace.
\<close>

definition appendResource ::
  "string \<Rightarrow> string \<Rightarrow> string \<Rightarrow> (string \<times> resource list) list \<Rightarrow>
   (string \<times> resource list) list" where
  "appendResource ns api res m =
     AList.update ns (map_get m ns [] @ [\<lparr>apigroup = api, kind = res\<rparr>]) m"

definition rulesToResources ::
  "string \<Rightarrow> ResourceRule list \<Rightarrow> (string \<times> resource list) list \<Rightarrow>
   (string \<times> resource list) list" where
  "rulesToResources ns resourceRules m =
     fold (\<lambda>rules m.
       fold (\<lambda>verb m.
         if verb = ''list'' \<or> verb = ''*''
         then fold (\<lambda>res m. fold (\<lambda>api m. appendResource ns api res m) (APIGroups rules) m)
                (Resources rules) m
         else m) (Verbs rules) m) resourceRules m"

text \<open>
  The loop over the namespaces. An error of the rules review is logged and the loop goes
  on to read the rules of the result, which panics when the result is nil.
\<close>

fun rulesReview_loop ::
  "kube \<Rightarrow> AuthorizationV1Interface \<Rightarrow> string list \<Rightarrow> (string \<times> resource list) list \<Rightarrow>
   sys \<Rightarrow> ((string \<times> resource list) list \<times> sys) outcome" where
  "rulesReview_loop k impersClientset [] m s = Returned (m, s)"
| "rulesReview_loop k impersClientset (ns # rest) m s =
     (let s = s\<lparr>calls := calls s @ [RulesReview ns]\<rparr>;
          (result, err) = SelfSubjectRulesReviews_Create k impersClientset ns
      in case result of
           None \<Rightarrow> Panic
         | Some resourceRules \<Rightarrow>
             rulesReview_loop k impersClientset rest (rulesToResources ns resourceRules m) s)"

text \<open>
  \<open>nsResources_fresh\<close> is the condition of the first \<^verbatim>\<open>if\<close> of
  \<open>getNamespacedResources\<close>: the map is not empty and was updated less than the TTL ago.
\<close>

definition nsResources_fresh :: "kube \<Rightarrow> int \<Rightarrow> userData \<Rightarrow> sys \<Rightarrow> bool \<times> sys" where
  "nsResources_fresh k ttl user s =
     (if length (nsResources user) > 0
      then (let (now, s) = time_Now k s
            in (now < nsrUpdatedAt user + UserCacheTTL_Duration ttl, s))
      else (False, s))"

definition getNamespacedResources ::
  "kube \<Rightarrow> int \<Rightarrow> Cache \<Rightarrow> string \<Rightarrow> userData \<Rightarrow> sys \<Rightarrow>
   ((userData \<times> error option) \<times> sys) outcome" where
  "getNamespacedResources k ttl cache clientToken user s =
     (case getManagedClusters k ttl user s of
        Panic \<Rightarrow> Panic
      | Returned ((managedClusterNamespaces, _), user, s) \<Rightarrow>
          (let (fresh, s) = nsResources_fresh k ttl user s
           in if fresh
              then (let user = user\<lparr>nsrErr := None\<rparr> in Returned ((user, nsrErr user), s))
              else
                (let allNamespaces = shared_namespaces (shared cache)
                 in if length allNamespaces = 0
                    then Returned ((user, shared_nsErr (shared cache)), s)
                    else
                      (let user = user\<lparr>csrErr := None\<rparr>
                       in case getImpersonationClientSet k cache clientToken user of
                            Panic \<Rightarrow> Panic
                          | Returned (Inl err, user) \<Rightarrow> Returned ((user, Some err), s)
                          | Returned (Inr impersClientset, user) \<Rightarrow>
                              (let user = user\<lparr>nsResources := []\<rparr>;
                                   managedClusterNs = map fst managedClusterNamespaces;
                                   (allNamespaces, err) =
                                      intersection allNamespaces managedClusterNs
                               in case rulesReview_loop k impersClientset allNamespaces
                                         (nsResources user) s of
                                    Panic \<Rightarrow> Panic
                                  | Returned (m, s) \<Rightarrow>
                                      (let user = user\<lparr>nsResources := m\<rparr>;
                                           (now, s) = time_Now k s;
                                           user = user\<lparr>nsrUpdatedAt := now\<rparr>
                                       in Returned ((user, nsrErr user), s)))))))"

subsection \<open>getClusterScopedResources\<close>

definition userAuthorizedListCSResource ::
  "kube \<Rightarrow> AuthorizationV1Interface \<Rightarrow> string \<Rightarrow> string \<Rightarrow> sys \<Rightarrow> bool \<times> sys" where
  "userAuthorizedListCSResource k authzClient' apigroup' kind_plural s =
     (let s = s\<lparr>calls := calls s @ [AccessReview apigroup' kind_plural]\<rparr>
      in case SelfSubjectAccessReviews_Create k authzClient' apigroup' kind_plural of
           Inl err \<Rightarrow> (False, s)
         | Inr allowed \<Rightarrow> (allowed, s))"

fun csResources_loop ::
  "kube \<Rightarrow> AuthorizationV1Interface \<Rightarrow> resource list \<Rightarrow> resource list \<Rightarrow> sys \<Rightarrow>
   resource list \<times> sys" where
  "csResources_loop k impersClientset [] acc s = (acc, s)"
| "csResources_loop k impersClientset (res # rest) acc s =
     (let (allowed, s) =
            userAuthorizedListCSResource k impersClientset (apigroup res) (kind res) s
      in if allowed
         then csResources_loop k impersClientset rest
                (acc @ [\<lparr>apigroup = apigroup res, kind = kind res\<rparr>]) s
         else csResources_loop k impersClientset rest acc s)"

definition getClusterScopedResources ::
  "kube \<Rightarrow> Cache \<Rightarrow> string \<Rightarrow> userData \<Rightarrow> sys \<Rightarrow>
   ((userData \<times> error option) \<times> sys) outcome" where
  "getClusterScopedResources k cache clientToken user s =
     (let user = user\<lparr>csrErr := None\<rparr>;
          clusterScopedResources = shared_csResources (shared cache)
      in if length clusterScopedResources = 0 then Returned ((user, csrErr user), s)
         else
           (case getImpersonationClientSet k cache clientToken user of
              Panic \<Rightarrow> Panic
            | Returned (Inl err, user) \<Rightarrow>
                (let user = user\<lparr>csrErr := Some err\<rparr> in Returned ((user, csrErr user), s))
            | Returned (Inr impersClientset, user) \<Rightarrow>
                (let user = user\<lparr>csResources := []\<rparr>;
                     (acc, s) = csResources_loop k impersClientset clusterScopedResources
                                  (csResources user) s;
                     user = user\<lparr>csResources := acc\<rparr>;
                     (now, s) = time_Now k s;
                     user = user\<lparr>csrUpdatedAt := now\<rparr>
                 in Returned ((user, csrErr user), s))))"

subsection \<open>GetUserData\<close>

text \<open>
  The \<^verbatim>\<open>else\<close> branch of \<open>GetUserData\<close> and what follows it: a new \<open>userData\<close> takes the
  place of whatever the cache held for the UID, and the two refresh functions run on it.
  The cache holds a pointer to the user data, so it sees what the refresh functions
  write.
\<close>

definition GetUserData_refresh ::
  "kube \<Rightarrow> int \<Rightarrow> Cache \<Rightarrow> string \<Rightarrow> string \<Rightarrow> AuthorizationV1Interface option \<Rightarrow> sys \<Rightarrow>
   ((userData \<times> error option) \<times> Cache \<times> sys) outcome" where
  "GetUserData_refresh k ttl cache clientToken uid authzClient' s =
     (let user = new_userData;
          cache = cache\<lparr>users := AList.update uid user (users cache)\<rparr>;
          user = (case authzClient' of
                    Some c \<Rightarrow> user\<lparr>authzClient := Some c\<rparr>
                  | None \<Rightarrow> user)
      in case getNamespacedResources k ttl cache clientToken user s of
           Panic \<Rightarrow> Panic
         | Returned ((user, err), s) \<Rightarrow>
             if err = None
             then (case getClusterScopedResources k cache clientToken user s of
                     Panic \<Rightarrow> Panic
                   | Returned ((user, err), s) \<Rightarrow>
                       Returned ((user, err),
                                 cache\<lparr>users := AList.update uid user (users cache)\<rparr>, s))
             else Returned ((user, err),
                            cache\<lparr>users := AList.update uid user (users cache)\<rparr>, s))"

definition GetUserData ::
  "kube \<Rightarrow> int \<Rightarrow> Cache \<Rightarrow> string \<Rightarrow> AuthorizationV1Interface option \<Rightarrow> sys \<Rightarrow>
   ((userData \<times> error option) \<times> Cache \<times> sys) outcome" where
  "GetUserData k ttl cache clientToken authzClient' s =
     (case map_of (tokenReviews cache) clientToken of
        None \<Rightarrow> Panic
      | Some review \<Rightarrow>
          (let uid = UID review
           in case map_of (users cache) uid of
                Some cachedUserData \<Rightarrow>
                  (let (valid, s) = userCacheValid k ttl cachedUserData s
                   in if valid then Returned ((cachedUserData, None), cache, s)
                      else GetUserData_refresh k ttl cache clientToken uid authzClient' s)
              | None \<Rightarrow> GetUserData_refresh k ttl cache clientToken uid authzClient' s))"

subsection \<open>A sample cluster and a sample cache\<close>

text \<open>
  A cluster with the managed-cluster namespaces \<open>c1\<close> and \<open>c2\<close>, a user who may list
  nodes and, in \<open>c1\<close>, deployments; the same cluster with a failing namespace listing;
  and a cache that holds a snapshot of that user.
\<close>

abbreviation (input) sample_label :: string where
  "sample_label \<equiv> ''cluster.open-cluster-management.io/managedCluster''"

abbreviation (input) sample_client :: AuthorizationV1Interface where
  "sample_client \<equiv> ImpersonationClient ''alice'' ''u-1''"

abbreviation (input) sample_kube :: kube where
  "sample_kube \<equiv>
     \<lparr>clock = (\<lambda>n. 5000000 + int n),
      NewForConfig = None,
      NewForConfig_Impersonate = (\<lambda>username uid. None),
      Namespaces_List =
        (Some [\<lparr>Name = ''c1'', Labels = [(''team'', ''a''), (sample_label, ''c1'')]\<rparr>,
               \<lparr>Name = ''default'', Labels = []\<rparr>,
               \<lparr>Name = ''c2'', Labels = [(sample_label, ''c2'')]\<rparr>], None),
      SelfSubjectAccessReviews_Create =
        (\<lambda>c g r. if r = ''nodes'' then Inr True else Inr False),
      SelfSubjectRulesReviews_Create =
        (\<lambda>c ns. if ns = ''c1''
                then (Some [\<lparr>Verbs = [''get'', ''list''], APIGroups = [''apps''],
                             Resources = [''deployments'']\<rparr>], None)
                else (Some [], None))\<rparr>"


abbreviation (input) sample_cached :: userData where
  "sample_cached \<equiv>
     \<lparr>managedClusters = [(''c1'', sample_label)],
      csResources = [\<lparr>apigroup = '''', kind = ''nodes''\<rparr>],
      nsResources = [(''c1'', [\<lparr>apigroup = ''apps'', kind = ''deployments''\<rparr>])],
      clustersErr = None, clustersUpdatedAt = 0,
      csrErr = None, csrUpdatedAt = 4500000,
      nsrErr = None, nsrUpdatedAt = 4500000,
      authzClient = Some sample_client\<rparr>"

abbreviation (input) sample_cache :: Cache where
  "sample_cache \<equiv>
     \<lparr>tokenReviews = [(''token-alice'', \<lparr>Username = ''alice'', UID = ''u-1''\<rparr>)],
      shared = \<lparr>shared_namespaces = [''c1'', ''default'', ''kube-system''],
                shared_csResources = [\<lparr>apigroup = '''', kind = ''nodes''\<rparr>,
                                      \<lparr>apigroup = ''storage.k8s.io'', kind = ''storageclasses''\<rparr>],
                shared_nsErr = None\<rparr>,
      users = [(''u-1'', sample_cached)]\<rparr>"

abbreviation (input) sample_sys :: sys where
  "sample_sys \<equiv> \<lparr>ticks = 0, calls = []\<rparr>"

abbreviation (input) sample_refreshed :: userData where
  "sample_refreshed \<equiv>
     \<lparr>managedClusters = [(''c1'', sample_label), (''c2'', sample_label)],
      csResources = [\<lparr>apigroup = '''', kind = ''nodes''\<rparr>],
      nsResources = [(''c1'', [\<lparr>apigroup = ''apps'', kind = ''deployments''\<rparr>])],
      clustersErr = None, clustersUpdatedAt = 6000000,
      csrErr = None, csrUpdatedAt = 6000000,
      nsrErr = None, nsrUpdatedAt = 6000000,
      authzClient = Some sample_client\<rparr>"

abbreviation (input) sample_cache_failing :: Cache where
  "sample_cache_failing \<equiv>
     \<lparr>tokenReviews = [(''token-alice'', \<lparr>Username = ''alice'', UID = ''u-1''\<rparr>)],
      shared = \<lparr>shared_namespaces = [], shared_csResources = [],
                shared_nsErr = Some ''namespaces not listed''\<rparr>,
      users = [(''u-1'', sample_cached\<lparr>nsrUpdatedAt := 0\<rparr>)]\<rparr>"

abbreviation (input) sample_discarded :: userData where
  "sample_discarded \<equiv>
     \<lparr>managedClusters = [(''c1'', sample_label), (''c2'', sample_label)],
      csResources = [], nsResources = [],
      clustersErr = None, clustersUpdatedAt = 5000002,
      csrErr = None, csrUpdatedAt = 0,
      nsrErr = None, nsrUpdatedAt = 0,
      authzClient = None\<rparr>"

section \<open>Properties of the predicate synthesizer\<close>

lemma goqu_Or_Nil: "goqu_Or [] = ExpressionList OrType []"
  by (simp add: goqu_Or_def NewExpressionList_def)

lemma goqu_And_Nil: "goqu_And [] = ExpressionList AndType []"
  by (simp add: goqu_And_def NewExpressionList_def)

lemma matchApigroupKind_loop_wildcard:
  "\<exists>r\<in>set resources. Apigroup r = ''*'' \<and> Kind r = ''*'' \<Longrightarrow>
   matchApigroupKind_loop i resources whereCsDs = goqu_Or []"
  by (induction resources arbitrary: i whereCsDs) (auto simp: Let_def)



text \<open>
  C2, as the code has it. \<open>matchClusterScopedResources\<close> returns the empty clause
  \<^verbatim>\<open>goqu.Or()\<close> for the empty sequence and the same empty clause for the sequence
  holding the single entry with apigroup \<^verbatim>\<open>"*"\<close> and kind \<^verbatim>\<open>"*"\<close>: the two results
  are one and the same expression.
\<close>

theorem matchClusterScopedResources_empty_and_wildcard:
  "matchClusterScopedResources [] userInfo = goqu_Or [] \<and>
   matchClusterScopedResources [\<lparr>Apigroup = ''*'', Kind = ''*''\<rparr>] userInfo = goqu_Or [] \<and>
   matchClusterScopedResources [] userInfo =
     matchClusterScopedResources [\<lparr>Apigroup = ''*'', Kind = ''*''\<rparr>] userInfo"
  by (simp add: matchClusterScopedResources_def)

text \<open>
  C2, as stated, asks the result for no access and the result for blanket access to be
  distinct expressions. They are not.
\<close>

theorem matchClusterScopedResources_distinct_counterexample:
  "\<not> (matchClusterScopedResources [] \<lparr>Username = ''alice'', UID = ''u-1''\<rparr> \<noteq>
      matchClusterScopedResources [\<lparr>Apigroup = ''*'', Kind = ''*''\<rparr>]
        \<lparr>Username = ''alice'', UID = ''u-1''\<rparr>)"
  by (simp add: matchClusterScopedResources_def)

text \<open>
  C4. A resource sequence with an entry whose apigroup and kind are both \<^verbatim>\<open>"*"\<close>,
  wherever it stands and whatever the other entries are, makes \<open>matchApigroupKind\<close> return
  the empty clause \<^verbatim>\<open>goqu.Or()\<close> ("no clauses are needed as everything is allowed").
  The callers put the result into a conjunction next to a namespace condition \<open>c\<close>; there
  the empty clause is left out and restricts nothing.
\<close>

theorem matchApigroupKind_wildcard_short_circuit:
  assumes "\<exists>r\<in>set resources. Apigroup r = ''*'' \<and> Kind r = ''*''"
  shows "matchApigroupKind resources = goqu_Or [] \<and>
         (\<forall>c. goqu_And [c, matchApigroupKind resources] = goqu_And [c])"
  using matchApigroupKind_loop_wildcard [OF assms]
  by (simp add: matchApigroupKind_def goqu_Or_def goqu_And_def NewExpressionList_def)

theorem matchApigroupKind_wildcard_short_circuit_witness:
  "(\<exists>r\<in>set [\<lparr>Apigroup = ''apps'', Kind = ''deployments''\<rparr>, \<lparr>Apigroup = ''*'', Kind = ''*''\<rparr>,
             \<lparr>Apigroup = '''', Kind = ''pods''\<rparr>]. Apigroup r = ''*'' \<and> Kind r = ''*'') \<and>
   matchApigroupKind [\<lparr>Apigroup = ''apps'', Kind = ''deployments''\<rparr>,
                      \<lparr>Apigroup = ''*'', Kind = ''*''\<rparr>, \<lparr>Apigroup = '''', Kind = ''pods''\<rparr>] =
     ExpressionList OrType []"
  using matchApigroupKind_wildcard_short_circuit
    [of "[\<lparr>Apigroup = ''apps'', Kind = ''deployments''\<rparr>, \<lparr>Apigroup = ''*'', Kind = ''*''\<rparr>,
          \<lparr>Apigroup = '''', Kind = ''pods''\<rparr>]"]
  by (simp add: goqu_Or_Nil)

section \<open>Properties of the consolidation\<close>

subsection \<open>Keys of a map\<close>

lemma set_GetKeys: "set (GetKeys m) = fst ` set m"
  by (simp add: GetKeys_def)

lemma distinct_GetKeys: "distinct (GetKeys m)"
  by (simp add: GetKeys_def)

lemma sorted_GetKeys: "sorted (GetKeys m)"
  by (simp add: GetKeys_def)

lemma GetKeys_cong: "fst ` set m = fst ` set m' \<Longrightarrow> GetKeys m = GetKeys m'"
  by (rule sorted_distinct_set_unique)
     (simp_all add: sorted_GetKeys distinct_GetKeys set_GetKeys)

lemma length_GetKeys: "distinct (map fst m) \<Longrightarrow> length (GetKeys m) = length m"
  by (simp add: GetKeys_def distinct_remdups_id)

lemma map_get_cong_set:
  "distinct (map fst xs) \<Longrightarrow> distinct (map fst ys) \<Longrightarrow> set xs = set ys \<Longrightarrow>
   map_get xs = map_get ys"
proof -
  assume "distinct (map fst xs)" "distinct (map fst ys)" "set xs = set ys"
  then have "map_of xs = map_of ys" by (simp add: map_of_inject_set)
  then show ?thesis by (simp add: map_get_def fun_eq_iff)
qed

lemma length_cong_set:
  assumes "distinct (map fst xs)" "distinct (map fst ys)" "set xs = set ys"
  shows "length xs = length ys"
proof -
  have "distinct xs" "distinct ys" using assms(1,2) by (auto simp: distinct_map)
  then show ?thesis using assms(3) by (metis distinct_card)
qed

subsection \<open>The loop of consolidateNsResources\<close>

lemma consolidate_loop_distinct:
  "consolidateNsResources_loop M xs m0 = Inr m \<Longrightarrow> distinct (map fst m0) \<Longrightarrow>
   distinct (map fst m)"
proof (induction xs arbitrary: m0)
  case Nil then show ?case by simp
next
  case (Cons x xs)
  obtain ns rs where x: "x = (ns, rs)" by (cases x)
  from Cons.prems show ?case unfolding x
    by (auto split: sum.splits option.splits intro!: Cons.IH simp: distinct_update)
qed

lemma consolidate_loop_dom:
  "consolidateNsResources_loop M xs m0 = Inr m \<Longrightarrow>
   fst ` set m = fst ` set m0 \<union> {k. \<exists>ns rs. (ns, rs) \<in> set xs \<and> M rs = Inr k}"
proof (induction xs arbitrary: m0)
  case Nil then show ?case by simp
next
  case (Cons x xs)
  obtain ns rs where x: "x = (ns, rs)" by (cases x)
  from Cons.prems obtain b where b: "M rs = Inr b"
    unfolding x by (auto split: sum.splits)
  show ?case
  proof (cases "map_of m0 b")
    case None
    with Cons.prems b have "consolidateNsResources_loop M xs (AList.update b [ns] m0) = Inr m"
      unfolding x by simp
    from Cons.IH[OF this] show ?thesis unfolding x using b
      by (auto simp: dom_update)
  next
    case (Some found)
    with Cons.prems b have "consolidateNsResources_loop M xs (AList.update b (found @ [ns]) m0) = Inr m"
      unfolding x by simp
    from Cons.IH[OF this] show ?thesis unfolding x using b
      by (auto simp: dom_update)
  qed
qed

lemma map_get_update:
  "map_get (AList.update b v m) k z = (if k = b then v else map_get m k z)"
  by (simp add: map_get_def update_conv')

lemma consolidate_loop_members:
  "consolidateNsResources_loop M xs m0 = Inr m \<Longrightarrow>
   set (map_get m k []) = set (map_get m0 k []) \<union> {ns. \<exists>rs. (ns, rs) \<in> set xs \<and> M rs = Inr k}"
proof (induction xs arbitrary: m0)
  case Nil then show ?case by simp
next
  case (Cons x xs)
  obtain ns rs where x: "x = (ns, rs)" by (cases x)
  from Cons.prems obtain b where b: "M rs = Inr b"
    unfolding x by (auto split: sum.splits)
  show ?case
  proof (cases "map_of m0 b")
    case None
    with Cons.prems b have "consolidateNsResources_loop M xs (AList.update b [ns] m0) = Inr m"
      unfolding x by simp
    from Cons.IH[OF this] show ?thesis unfolding x using b None
      by (auto simp: map_get_update) (auto simp: map_get_def)
  next
    case (Some found)
    with Cons.prems b have "consolidateNsResources_loop M xs (AList.update b (found @ [ns]) m0) = Inr m"
      unfolding x by simp
    from Cons.IH[OF this] show ?thesis unfolding x using b Some
      by (auto simp: map_get_update) (auto simp: map_get_def)
  qed
qed

lemma consolidate_loop_succeeds:
  "(\<forall>(ns, rs)\<in>set xs. \<exists>k. M rs = Inr k) \<Longrightarrow> \<exists>m. consolidateNsResources_loop M xs m0 = Inr m"
proof (induction xs arbitrary: m0)
  case Nil then show ?case by simp
next
  case (Cons x xs)
  obtain ns rs where x: "x = (ns, rs)" by (cases x)
  from Cons.prems obtain b where b: "M rs = Inr b" unfolding x by auto
  from Cons.prems have rest: "\<forall>(ns, rs)\<in>set xs. \<exists>k. M rs = Inr k" by simp
  show ?case unfolding x using b Cons.IH[OF rest]
    by (auto split: option.splits)
qed

lemma consolidate_loop_marshals:
  "consolidateNsResources_loop M xs m0 = Inr m \<Longrightarrow> \<forall>(ns, rs)\<in>set xs. \<exists>k. M rs = Inr k"
proof (induction xs arbitrary: m0)
  case Nil then show ?case by simp
next
  case (Cons x xs)
  obtain ns rs where x: "x = (ns, rs)" by (cases x)
  from Cons.prems show ?case unfolding x
    by (auto split: sum.splits option.splits dest!: Cons.IH)
qed

lemma matchNamespacedResources_cong:
  assumes "length (NsResources a) = length (NsResources b)"
    and "GetKeys (NsResources a) = GetKeys (NsResources b)"
    and "length (ConsolidatedNsResources a) = length (ConsolidatedNsResources b)"
    and "GetKeys (ConsolidatedNsResources a) = GetKeys (ConsolidatedNsResources b)"
    and "\<And>c ks ds. consolidatedLoop U a ui c ks ds = consolidatedLoop U b ui c ks ds"
    and "\<And>c ns ds. nonConsolidatedLoop a c ns ds = nonConsolidatedLoop b c ns ds"
  shows "matchNamespacedResources U a ui = matchNamespacedResources U b ui"
  unfolding matchNamespacedResources_def Let_def by (simp only: assms)

lemma matchNamespacedResources_shortcut:
  assumes "length (NsResources ud) < 1 \<or>
           (length (NsResources ud) = 1 \<and> GetKeys (NsResources ud) ! 0 = ''*'')"
  shows "matchNamespacedResources U ud ui = goqu_Or []"
proof (cases "length (NsResources ud) < 1")
  case True
  then show ?thesis unfolding matchNamespacedResources_def Let_def by (simp only: if_True)
next
  case False
  with assms have c: "length (NsResources ud) = 1 \<and> GetKeys (NsResources ud) ! 0 = ''*''" by blast
  show ?thesis unfolding matchNamespacedResources_def Let_def
    using c by simp
qed

lemma matchNamespacedResources_general:
  assumes "\<not> (length (NsResources ud) < 1 \<or>
           (length (NsResources ud) = 1 \<and> GetKeys (NsResources ud) ! 0 = ''*''))"
  shows "matchNamespacedResources U ud ui =
     (case consolidatedLoop U ud ui 0 (GetKeys (ConsolidatedNsResources ud))
                     (replicate (length (ConsolidatedNsResources ud)) NilExpression) of
                (whereNsDs, unMarshalErr) \<Rightarrow>
                  goqu_Or (if unMarshalErr \<noteq> None
                  then nonConsolidatedLoop ud 0 (GetKeys (NsResources ud))
                         (replicate (length (NsResources ud)) NilExpression)
                  else whereNsDs))"
proof -
  from assms have a: "\<not> length (NsResources ud) < 1"
    and b: "\<not> (length (NsResources ud) = 1 \<and> GetKeys (NsResources ud) ! 0 = ''*'')" by blast+
  show ?thesis unfolding matchNamespacedResources_def Let_def
    by (simp only: a b if_False)
qed

lemma IsEmpty_goqu_And_Cons [simp]: "\<not> IsEmpty a \<Longrightarrow> \<not> IsEmpty (goqu_And (a # as))"
  by (simp add: goqu_And_def NewExpressionList_def)

lemma holds_goqu_And2:
  "\<not> IsEmpty a \<Longrightarrow>
   holds T d (goqu_And [a, b]) = (holds T d a \<and> (IsEmpty b \<or> holds T d b))"
  by (simp add: goqu_And_def NewExpressionList_def)

lemma holds_goqu_Or_nonempty:
  assumes "xs \<noteq> []" and "\<forall>x\<in>set xs. \<not> IsEmpty x"
  shows "holds T d (goqu_Or xs) = (\<exists>x\<in>set xs. holds T d x)"
proof -
  have "filter (\<lambda>e. \<not> IsEmpty e) xs = xs" using assms(2) by (simp add: filter_id_conv)
  then show ?thesis using assms(1)
    by (simp add: goqu_Or_def NewExpressionList_def list_ex_iff)
qed

lemma consolidatedLoop_ok:
  assumes "\<forall>k\<in>set keys. \<exists>rs. U k = Inr rs" and "count + length keys \<le> length ds"
  shows "consolidatedLoop U ud ui count keys ds =
         (take count ds @
          map (\<lambda>k. goqu_And [FieldHasAnyOf ''namespace'' (lookupTableName (UID ui))
                               (map_get (NsResourceGroups ud) k []),
                             matchApigroupKind (case U k of Inr rs \<Rightarrow> rs | Inl e \<Rightarrow> [])]) keys @
          drop (count + length keys) ds, None)"
  using assms
proof (induction keys arbitrary: count ds)
  case Nil then show ?case by simp
next
  case (Cons k keys)
  from Cons.prems obtain rs where rs: "U k = Inr rs" by auto
  have c: "count < length ds" using Cons.prems by simp
  let ?x = "goqu_And [FieldHasAnyOf ''namespace'' (lookupTableName (UID ui))
                               (map_get (NsResourceGroups ud) k []), matchApigroupKind rs]"
  have IH: "consolidatedLoop U ud ui (Suc count) keys (ds[count := ?x]) =
        (take (Suc count) (ds[count := ?x]) @
          map (\<lambda>k. goqu_And [FieldHasAnyOf ''namespace'' (lookupTableName (UID ui))
                               (map_get (NsResourceGroups ud) k []),
                             matchApigroupKind (case U k of Inr rs \<Rightarrow> rs | Inl e \<Rightarrow> [])]) keys @
          drop (Suc count + length keys) (ds[count := ?x]), None)"
    using Cons.prems by (intro Cons.IH) simp_all
  have t: "take (Suc count) (ds[count := ?x]) = take count ds @ [?x]"
    using c by (simp add: take_Suc_conv_app_nth)
  have d: "drop (Suc count + length keys) (ds[count := ?x]) = drop (count + length (k # keys)) ds"
    by simp
  show ?case using rs IH t d by (simp add: Let_def)
qed

lemma nonConsolidatedLoop_ok:
  assumes "count + length nss \<le> length ds"
  shows "nonConsolidatedLoop ud count nss ds =
         take count ds @
          map (\<lambda>ns. goqu_And [FieldHas ''namespace'' ns,
                              matchApigroupKind (map_get (NsResources ud) ns [])]) nss @
          drop (count + length nss) ds"
  using assms
proof (induction nss arbitrary: count ds)
  case Nil then show ?case by simp
next
  case (Cons k keys)
  have c: "count < length ds" using Cons.prems by simp
  let ?x = "goqu_And [FieldHas ''namespace'' k, matchApigroupKind (map_get (NsResources ud) k [])]"
  have IH: "nonConsolidatedLoop ud (Suc count) keys (ds[count := ?x]) =
        take (Suc count) (ds[count := ?x]) @
          map (\<lambda>ns. goqu_And [FieldHas ''namespace'' ns,
                              matchApigroupKind (map_get (NsResources ud) ns [])]) keys @
          drop (Suc count + length keys) (ds[count := ?x])"
    using Cons.prems by (intro Cons.IH) simp_all
  have t: "take (Suc count) (ds[count := ?x]) = take count ds @ [?x]"
    using c by (simp add: take_Suc_conv_app_nth)
  have d: "drop (Suc count + length keys) (ds[count := ?x]) = drop (count + length (k # keys)) ds"
    by simp
  show ?case using IH t d by simp
qed

lemma consolidatedLoop_fails:
  "keys \<noteq> [] \<Longrightarrow> consolidatedLoop (\<lambda>k. Inl e) ud ui count keys ds = (ds, Some e)"
  by (cases keys) simp_all

lemma map_get_distinct:
  "distinct (map fst xs) \<Longrightarrow> (k, v) \<in> set xs \<Longrightarrow> map_get xs k z = v"
  by (simp add: map_get_def)

text \<open>
  C3. Let the consolidated map of a snapshot be what \<open>consolidateNsResources\<close> computes
  from its namespace map, let every resource sequence of the namespace map marshal to a
  key that unmarshals to the same sequence, and let the lookup table hold, under the group
  name of each key, the namespaces of that group. Then the predicate that
  \<open>matchNamespacedResources\<close> builds from the consolidated groups selects exactly the rows
  that its per-namespace predicate selects, the one it builds when unmarshalling fails.
\<close>

theorem consolidation_transparent:
  assumes wf: "distinct (map fst (NsResources userData))"
    and roundtrip: "\<forall>(ns, rs)\<in>set (NsResources userData).
                      \<exists>b. json_Marshal rs = Inr b \<and> json_Unmarshal b = Inr rs"
    and cons: "consolidateNsResources json_Marshal (NsResources userData) =
                 Inr (ConsolidatedNsResources userData, keys)"
    and table: "\<forall>(b, members)\<in>set (ConsolidatedNsResources userData).
                  set (lookup (lookupTableName (UID userInfo))
                         (map_get (NsResourceGroups userData) b [])) = set members"
  shows "holds lookup data (matchNamespacedResources json_Unmarshal userData userInfo) =
         holds lookup data (matchNamespacedResources (\<lambda>b. Inl unMarshalErr) userData userInfo)"
proof (cases "length (NsResources userData) < 1 \<or>
              (length (NsResources userData) = 1 \<and> GetKeys (NsResources userData) ! 0 = ''*'')")
  case True
  then show ?thesis by (simp only: matchNamespacedResources_shortcut)
next
  case False
  let ?nsr = "NsResources userData"
  let ?m = "ConsolidatedNsResources userData"
  let ?U = json_Unmarshal
  from cons have loop: "consolidateNsResources_loop json_Marshal ?nsr [] = Inr ?m"
    by (auto simp: consolidateNsResources_def split: sum.splits)
  have dm: "distinct (map fst ?m)" using consolidate_loop_distinct[OF loop] by simp
  have dom: "fst ` set ?m = {k. \<exists>ns rs. (ns, rs) \<in> set ?nsr \<and> json_Marshal rs = Inr k}"
    using consolidate_loop_dom[OF loop] by simp
  have mem: "set (map_get ?m k []) = {ns. \<exists>rs. (ns, rs) \<in> set ?nsr \<and> json_Marshal rs = Inr k}" for k
    using consolidate_loop_members[OF loop, of k] by (simp add: map_get_def)
  have ne: "?nsr \<noteq> []" using False by auto
  then obtain ns0 rs0 where "(ns0, rs0) \<in> set ?nsr" by (cases ?nsr) auto
  with roundtrip dom have "fst ` set ?m \<noteq> {}" by fastforce
  then have kne: "GetKeys ?m \<noteq> []" using set_GetKeys[of ?m] by (metis set_empty)
  have nne: "GetKeys ?nsr \<noteq> []" using ne set_GetKeys[of ?nsr] by (metis image_is_empty set_empty)
  have Uok: "\<forall>k\<in>set (GetKeys ?m). \<exists>rs. ?U k = Inr rs"
    using roundtrip dom by (fastforce simp: set_GetKeys)
  let ?cc = "\<lambda>k. goqu_And [FieldHasAnyOf ''namespace'' (lookupTableName (UID userInfo))
                               (map_get (NsResourceGroups userData) k []),
                             matchApigroupKind (case ?U k of Inr rs \<Rightarrow> rs | Inl e \<Rightarrow> [])]"
  let ?nc = "\<lambda>ns. goqu_And [FieldHas ''namespace'' ns,
                              matchApigroupKind (map_get ?nsr ns [])]"
  have lhs: "matchNamespacedResources ?U userData userInfo = goqu_Or (map ?cc (GetKeys ?m))"
    using consolidatedLoop_ok[OF Uok, of 0 "replicate (length ?m) NilExpression" userData userInfo]
    by (simp add: matchNamespacedResources_general[OF False] length_GetKeys[OF dm])
  have rhs: "matchNamespacedResources (\<lambda>b. Inl unMarshalErr) userData userInfo =
             goqu_Or (map ?nc (GetKeys ?nsr))"
    using consolidatedLoop_fails[OF kne]
      nonConsolidatedLoop_ok[of 0 "GetKeys ?nsr" "replicate (length ?nsr) NilExpression" userData]
    by (simp add: matchNamespacedResources_general[OF False] length_GetKeys[OF wf])
  have L: "holds lookup data (goqu_Or (map ?cc (GetKeys ?m))) =
           (\<exists>k\<in>set (GetKeys ?m). holds lookup data (?cc k))"
    using kne by (subst holds_goqu_Or_nonempty) auto
  have R: "holds lookup data (goqu_Or (map ?nc (GetKeys ?nsr))) =
           (\<exists>ns\<in>set (GetKeys ?nsr). holds lookup data (?nc ns))"
    using nne by (subst holds_goqu_Or_nonempty) auto
  have tbl: "(b, members) \<in> set ?m \<Longrightarrow> set (lookup (lookupTableName (UID userInfo))
                         (map_get (NsResourceGroups userData) b [])) = set (map_get ?m b [])" for b members
    using table map_get_distinct[OF dm] by fastforce
  have "(\<exists>k\<in>set (GetKeys ?m). holds lookup data (?cc k)) =
        (\<exists>ns\<in>set (GetKeys ?nsr). holds lookup data (?nc ns))" (is "?A = ?B")
  proof
    assume ?A
    then obtain k where k: "k \<in> fst ` set ?m" and h: "holds lookup data (?cc k)"
      by (auto simp: set_GetKeys)
    from k obtain members where km: "(k, members) \<in> set ?m" by auto
    from h obtain v where v: "map_of data ''namespace'' = Some v"
      and vin: "v \<in> set (lookup (lookupTableName (UID userInfo)) (map_get (NsResourceGroups userData) k []))"
      and q: "IsEmpty (matchApigroupKind (case ?U k of Inr rs \<Rightarrow> rs | Inl e \<Rightarrow> [])) \<or>
              holds lookup data (matchApigroupKind (case ?U k of Inr rs \<Rightarrow> rs | Inl e \<Rightarrow> []))"
      by (auto simp: holds_goqu_And2 split: option.splits)
    from vin tbl[OF km] mem[of k] obtain rs where rs: "(v, rs) \<in> set ?nsr" "json_Marshal rs = Inr k"
      by auto
    with roundtrip have "?U k = Inr rs" by fastforce
    moreover have "map_get ?nsr v [] = rs" using map_get_distinct[OF wf rs(1)] .
    ultimately have "holds lookup data (?nc v)" using v q by (simp add: holds_goqu_And2)
    moreover have "v \<in> set (GetKeys ?nsr)" using rs(1) by (force simp: set_GetKeys)
    ultimately show ?B by blast
  next
    assume ?B
    then obtain ns where ns: "ns \<in> fst ` set ?nsr" and h: "holds lookup data (?nc ns)"
      by (auto simp: set_GetKeys)
    from ns obtain rs where rs: "(ns, rs) \<in> set ?nsr" by auto
    have mg: "map_get ?nsr ns [] = rs" using map_get_distinct[OF wf rs] .
    from roundtrip rs obtain b where b: "json_Marshal rs = Inr b" "?U b = Inr rs" by fastforce
    have bk: "b \<in> fst ` set ?m" using dom rs b by auto
    then obtain members where bm: "(b, members) \<in> set ?m" by auto
    have "ns \<in> set (map_get ?m b [])" using mem[of b] rs b by auto
    then have "ns \<in> set (lookup (lookupTableName (UID userInfo)) (map_get (NsResourceGroups userData) b []))"
      using tbl[OF bm] by simp
    moreover from h have "map_of data ''namespace'' = Some ns"
      and "IsEmpty (matchApigroupKind rs) \<or> holds lookup data (matchApigroupKind rs)"
      by (auto simp: holds_goqu_And2 mg)
    ultimately have "holds lookup data (?cc b)" using b by (simp add: holds_goqu_And2)
    then show ?A using bk by (auto simp: set_GetKeys)
  qed
  then show ?thesis by (simp only: lhs rhs L R)
qed

theorem consolidation_transparent_witness:
  "distinct (map fst (NsResources sample_userData)) \<and>
   consolidateNsResources sample_Marshal (NsResources sample_userData) =
     Inr (ConsolidatedNsResources sample_userData, [sample_key1, sample_key2]) \<and>
   holds sample_lookup sample_row
     (matchNamespacedResources sample_Unmarshal sample_userData sample_userInfo) \<and>
   holds sample_lookup sample_row
     (matchNamespacedResources (\<lambda>b. Inl ''unexpected end of JSON input'') sample_userData
        sample_userInfo)"
proof -
  have wf: "distinct (map fst (NsResources sample_userData))" by simp
  have roundtrip: "\<forall>(ns, rs)\<in>set (NsResources sample_userData).
      \<exists>b. sample_Marshal rs = Inr b \<and> sample_Unmarshal b = Inr rs" by simp
  have cons: "consolidateNsResources sample_Marshal (NsResources sample_userData) =
     Inr (ConsolidatedNsResources sample_userData, [sample_key1, sample_key2])" by code_simp
  have table: "\<forall>(b, members)\<in>set (ConsolidatedNsResources sample_userData).
      set (sample_lookup (lookupTableName (UID sample_userInfo))
             (map_get (NsResourceGroups sample_userData) b [])) = set members"
    by (simp add: lookupTableName_def map_get_def)
  have lhs: "holds sample_lookup sample_row
     (matchNamespacedResources sample_Unmarshal sample_userData sample_userInfo)" by code_simp
  show ?thesis
    using consolidation_transparent
      [where userData = sample_userData and json_Marshal = sample_Marshal
         and json_Unmarshal = sample_Unmarshal and keys = "[sample_key1, sample_key2]"
         and lookup = sample_lookup and userInfo = sample_userInfo and data = sample_row
         and unMarshalErr = "''unexpected end of JSON input''"]
      wf roundtrip cons table lhs
    by blast
qed

text \<open>
  C9. Two visits of the same namespace map in different orders give the same sequence of
  group keys from \<open>consolidateNsResources\<close>, and \<open>matchNamespacedResources\<close> builds the
  same predicate from the two snapshots.
\<close>

theorem consolidateNsResources_keys_deterministic:
  assumes "distinct (map fst nsr)" and "distinct (map fst nsr')"
    and "set nsr = set nsr'"
    and "consolidateNsResources json_Marshal nsr = Inr (m, keys)"
  shows "\<exists>m'. consolidateNsResources json_Marshal nsr' = Inr (m', keys) \<and>
           matchNamespacedResources json_Unmarshal
             \<lparr>CsResources = cs, NsResources = nsr, ConsolidatedNsResources = m,
              NsResourceGroups = groups\<rparr> userInfo =
           matchNamespacedResources json_Unmarshal
             \<lparr>CsResources = cs, NsResources = nsr', ConsolidatedNsResources = m',
              NsResourceGroups = groups\<rparr> userInfo"
proof -
  from assms(4) have loop: "consolidateNsResources_loop json_Marshal nsr [] = Inr m"
    and keys: "keys = GetKeys m"
    by (auto simp: consolidateNsResources_def split: sum.splits)
  from consolidate_loop_marshals[OF loop] assms(3)
  have "\<forall>(ns, rs)\<in>set nsr'. \<exists>k. json_Marshal rs = Inr k" by simp
  from consolidate_loop_succeeds[OF this]
  obtain m' where loop': "consolidateNsResources_loop json_Marshal nsr' [] = Inr m'"
    by blast
  have dom: "fst ` set m = fst ` set m'"
    using consolidate_loop_dom[OF loop] consolidate_loop_dom[OF loop'] assms(3) by simp
  have keys': "GetKeys m' = keys" unfolding keys by (rule GetKeys_cong[OF dom[symmetric]])
  have dm: "distinct (map fst m)" "distinct (map fst m')"
    using consolidate_loop_distinct[OF loop] consolidate_loop_distinct[OF loop'] by simp_all
  have len: "length m = length m'"
    using length_GetKeys[OF dm(1)] length_GetKeys[OF dm(2)] keys keys' by simp
  have lenn: "length nsr = length nsr'"
    by (rule length_cong_set[OF assms(1,2,3)])
  have nk: "GetKeys nsr = GetKeys nsr'"
    by (rule GetKeys_cong) (simp add: assms(3))
  have mg: "map_get nsr = map_get nsr'"
    by (rule map_get_cong_set[OF assms(1,2,3)])
  have ncl: "nonConsolidatedLoop \<lparr>CsResources = cs, NsResources = nsr, ConsolidatedNsResources = m,
              NsResourceGroups = groups\<rparr> c ns ds = nonConsolidatedLoop \<lparr>CsResources = cs, NsResources = nsr', ConsolidatedNsResources = m',
              NsResourceGroups = groups\<rparr> c ns ds" for c ns ds
    by (induction ns arbitrary: c ds) (simp_all add: mg)
  have cl: "consolidatedLoop json_Unmarshal \<lparr>CsResources = cs, NsResources = nsr, ConsolidatedNsResources = m,
              NsResourceGroups = groups\<rparr> userInfo c ks ds = consolidatedLoop json_Unmarshal \<lparr>CsResources = cs, NsResources = nsr', ConsolidatedNsResources = m',
              NsResourceGroups = groups\<rparr> userInfo c ks ds" for c ks ds
    by (induction ks arbitrary: c ds) (simp_all split: sum.splits)
  have "consolidateNsResources json_Marshal nsr' = Inr (m', keys)"
    using loop' keys' by (simp add: consolidateNsResources_def)
  moreover have "matchNamespacedResources json_Unmarshal
             \<lparr>CsResources = cs, NsResources = nsr, ConsolidatedNsResources = m,
              NsResourceGroups = groups\<rparr> userInfo =
           matchNamespacedResources json_Unmarshal
             \<lparr>CsResources = cs, NsResources = nsr', ConsolidatedNsResources = m',
              NsResourceGroups = groups\<rparr> userInfo"
    by (rule matchNamespacedResources_cong) (simp_all add: lenn nk len keys' keys[symmetric] ncl cl)
  ultimately show ?thesis by blast
qed

theorem consolidateNsResources_keys_deterministic_witness:
  "distinct (map fst sample_nsResources) \<and> distinct (map fst sample_nsResources') \<and>
   set sample_nsResources = set sample_nsResources' \<and>
   consolidateNsResources sample_Marshal sample_nsResources =
     Inr (sample_groups, [sample_key1, sample_key2]) \<and>
   (\<exists>m'. consolidateNsResources sample_Marshal sample_nsResources' =
            Inr (m', [sample_key1, sample_key2]) \<and>
         matchNamespacedResources sample_Unmarshal
           \<lparr>CsResources = [], NsResources = sample_nsResources,
            ConsolidatedNsResources = sample_groups, NsResourceGroups = []\<rparr> sample_userInfo =
         matchNamespacedResources sample_Unmarshal
           \<lparr>CsResources = [], NsResources = sample_nsResources',
            ConsolidatedNsResources = m', NsResourceGroups = []\<rparr> sample_userInfo)"
proof -
  have d1: "distinct (map fst sample_nsResources)" by simp
  have d2: "distinct (map fst sample_nsResources')" by simp
  have s: "set sample_nsResources = set sample_nsResources'" by auto
  have c: "consolidateNsResources sample_Marshal sample_nsResources =
     Inr (sample_groups, [sample_key1, sample_key2])" by code_simp
  show ?thesis
    using consolidateNsResources_keys_deterministic
      [where nsr = sample_nsResources and nsr' = sample_nsResources'
         and json_Marshal = sample_Marshal and m = sample_groups
         and keys = "[sample_key1, sample_key2]" and json_Unmarshal = sample_Unmarshal
         and cs = "[]" and groups = "[]" and userInfo = sample_userInfo]
      d1 d2 s c
    by blast
qed

section \<open>Properties of the permission cache\<close>

subsection \<open>The validity check\<close>

lemma userCacheValid_eq:
  "userCacheValid k ttl user s =
     (if clock k (ticks s) < csrUpdatedAt user + UserCacheTTL_Duration ttl
      then (clock k (Suc (ticks s)) < nsrUpdatedAt user + UserCacheTTL_Duration ttl,
            s\<lparr>ticks := Suc (Suc (ticks s))\<rparr>)
      else (False, s\<lparr>ticks := Suc (ticks s)\<rparr>))"
  by (simp add: userCacheValid_def time_Now_def)

subsection \<open>Traces\<close>

lemma getManagedClusters_new_calls:
  assumes "managedClusters user = []"
    and "getManagedClusters k ttl user s = Returned (r, user', s')"
  shows "calls s' = calls s @ [ListNamespaces]"
  using assms
  by (auto simp: getManagedClusters_def managedClusters_fresh_def time_Now_def Let_def
           split: option.splits prod.splits)

lemma rulesReview_loop_calls:
  "rulesReview_loop k c nss m s = Returned (m', s') \<Longrightarrow> \<exists>rest. calls s' = calls s @ rest"
proof (induction nss arbitrary: m s)
  case Nil then show ?case by simp
next
  case (Cons ns nss)
  from Cons.prems obtain rules where
    r: "rulesReview_loop k c nss (rulesToResources ns rules m)
          (s\<lparr>calls := calls s @ [RulesReview ns]\<rparr>) = Returned (m', s')"
    by (auto simp: Let_def split: prod.splits option.splits)
  from Cons.IH[OF r] show ?case by auto
qed

lemma csResources_loop_calls:
  "csResources_loop k c rs acc s = (acc', s') \<Longrightarrow> \<exists>rest. calls s' = calls s @ rest"
proof (induction rs arbitrary: acc s)
  case Nil then show ?case by simp
next
  case (Cons r rs)
  obtain allowed s1 where u: "userAuthorizedListCSResource k c (apigroup r) (kind r) s = (allowed, s1)"
    by (cases "userAuthorizedListCSResource k c (apigroup r) (kind r) s")
  then have s1: "calls s1 = calls s @ [AccessReview (apigroup r) (kind r)]"
    by (auto simp: userAuthorizedListCSResource_def Let_def split: sum.splits)
  from Cons.prems u have "\<exists>acc1. csResources_loop k c rs acc1 s1 = (acc', s')"
    by (auto split: if_splits)
  then obtain acc1 where "csResources_loop k c rs acc1 s1 = (acc', s')" by blast
  from Cons.IH[OF this] s1 show ?case by auto
qed

lemma getClusterScopedResources_calls:
  assumes "getClusterScopedResources k cache tok user s = Returned (r, s')"
  shows "\<exists>rest. calls s' = calls s @ rest"
proof (cases "length (shared_csResources (shared cache)) = 0")
  case True
  with assms show ?thesis by (auto simp: getClusterScopedResources_def Let_def)
next
  case False
  show ?thesis
  proof (cases "getImpersonationClientSet k cache tok (user\<lparr>csrErr := None\<rparr>)")
    case Panic
    with assms False show ?thesis by (simp add: getClusterScopedResources_def Let_def)
  next
    case (Returned x)
    obtain e u where x: "x = (e, u)" by (cases x)
    show ?thesis
    proof (cases e)
      case (Inl err)
      with assms False Returned x show ?thesis
        by (auto simp: getClusterScopedResources_def Let_def)
    next
      case (Inr c)
      obtain acc s1 where l: "csResources_loop k c (shared_csResources (shared cache)) [] s = (acc, s1)"
        by (cases "csResources_loop k c (shared_csResources (shared cache)) [] s")
      from csResources_loop_calls[OF l] obtain rest where "calls s1 = calls s @ rest" by blast
      with assms False Returned x Inr l show ?thesis
        by (auto simp: getClusterScopedResources_def Let_def time_Now_def)
    qed
  qed
qed

subsection \<open>Frames\<close>

lemma getManagedClusters_frame:
  assumes "getManagedClusters k ttl user s = Returned ((mc, e), user', s')"
  shows "mc = managedClusters user' \<and> e = None \<and> nsResources user' = nsResources user \<and>
         csResources user' = csResources user \<and> (\<exists>rest. calls s' = calls s @ rest)"
  using assms
  by (auto simp: getManagedClusters_def managedClusters_fresh_def time_Now_def Let_def
           split: option.splits prod.splits if_splits)

lemma getImpersonationClientSet_frame:
  assumes "getImpersonationClientSet k cache tok user = Returned (r, user')"
  shows "nsResources user' = nsResources user \<and> managedClusters user' = managedClusters user \<and>
         csResources user' = csResources user"
  using assms
  by (auto simp: getImpersonationClientSet_def Let_def split: option.splits)

subsection \<open>Keys of the namespace map\<close>

lemma keys_fold_le:
  assumes "\<And>x m. fst ` set (f x m) \<subseteq> insert ns (fst ` set m)"
  shows "fst ` set (fold f xs m) \<subseteq> insert ns (fst ` set m)"
proof (induction xs arbitrary: m)
  case Nil then show ?case by auto
next
  case (Cons x xs)
  have "fst ` set (fold f xs (f x m)) \<subseteq> insert ns (fst ` set (f x m))" by (rule Cons.IH)
  also have "\<dots> \<subseteq> insert ns (fst ` set m)" using assms[of x m] by auto
  finally show ?case by simp
qed

lemma keys_appendResource:
  "fst ` set (appendResource ns api res m) \<subseteq> insert ns (fst ` set m)"
  by (simp add: appendResource_def dom_update)

lemma keys_rulesToResources:
  "fst ` set (rulesToResources ns resourceRules m) \<subseteq> insert ns (fst ` set m)"
proof -
  have apis: "fst ` set (fold (\<lambda>api m. appendResource ns api res m) apis m) \<subseteq>
              insert ns (fst ` set m)" for res apis m
    by (rule keys_fold_le) (rule keys_appendResource)
  have ress: "fst ` set (fold (\<lambda>res m. fold (\<lambda>api m. appendResource ns api res m) apis m)
                           rs m) \<subseteq> insert ns (fst ` set m)" for apis rs m
    by (rule keys_fold_le) (rule apis)
  have verbs: "fst ` set (fold (\<lambda>verb m.
         if verb = ''list'' \<or> verb = ''*''
         then fold (\<lambda>res m. fold (\<lambda>api m. appendResource ns api res m) apis m) rs m
         else m) vs m) \<subseteq> insert ns (fst ` set m)" for apis rs vs m
  proof (rule keys_fold_le)
    fix x m
    show "fst ` set (if x = ''list'' \<or> x = ''*''
         then fold (\<lambda>res m. fold (\<lambda>api m. appendResource ns api res m) apis m) rs m
         else m) \<subseteq> insert ns (fst ` set m)"
      using ress[of apis rs m] by auto
  qed
  show ?thesis unfolding rulesToResources_def
    by (rule keys_fold_le) (rule verbs)
qed

lemma keys_rulesReview_loop:
  "rulesReview_loop k c nss m s = Returned (m', s') \<Longrightarrow>
   fst ` set m' \<subseteq> fst ` set m \<union> set nss"
proof (induction nss arbitrary: m s)
  case Nil then show ?case by simp
next
  case (Cons ns nss)
  from Cons.prems obtain rules where
    r: "rulesReview_loop k c nss (rulesToResources ns rules m)
          (s\<lparr>calls := calls s @ [RulesReview ns]\<rparr>) = Returned (m', s')"
    by (auto simp: Let_def split: prod.splits option.splits)
  from Cons.IH[OF r] keys_rulesToResources[of ns rules m] show ?case by auto
qed

lemma set_intersection:
  "set (fst (intersection a1 a2)) = set a1 \<inter> set a2"
  by (auto simp: intersection_def list_ex_iff)

subsection \<open>What getNamespacedResources leaves behind\<close>

lemma getNamespacedResources_analysis:
  assumes "getNamespacedResources k ttl cache tok user s = Returned ((user', err), s')"
  shows "\<exists>mc e u1 s1.
           getManagedClusters k ttl user s = Returned ((mc, e), u1, s1) \<and>
           managedClusters user' = managedClusters u1 \<and>
           csResources user' = csResources u1 \<and>
           (\<exists>rest. calls s' = calls s1 @ rest) \<and>
           (nsResources user' = nsResources u1 \<or>
            (\<exists>c s2 s3. rulesReview_loop k c
                 (fst (intersection (shared_namespaces (shared cache)) (map fst mc))) [] s2 =
                 Returned (nsResources user', s3)))"
proof (cases "getManagedClusters k ttl user s")
  case Panic
  with assms show ?thesis by (simp add: getNamespacedResources_def)
next
  case (Returned x)
  obtain mc e u1 s1 where x: "x = ((mc, e), u1, s1)" by (cases x) auto
  obtain fresh s2 where f: "nsResources_fresh k ttl u1 s1 = (fresh, s2)"
    by (cases "nsResources_fresh k ttl u1 s1")
  have s2: "calls s2 = calls s1"
    using f by (auto simp: nsResources_fresh_def time_Now_def split: if_splits)
  have step: "(if fresh
        then let user = u1\<lparr>nsrErr := None\<rparr>
             in Returned ((user, nsrErr user), s2)
        else let allNamespaces = shared_namespaces (shared cache)
             in if length allNamespaces = 0
                then Returned ((u1, shared_nsErr (shared cache)), s2)
                else let user = u1\<lparr>csrErr := None\<rparr>
                     in case getImpersonationClientSet k cache tok user of
                        Returned (Inl err, user) \<Rightarrow>
                          Returned ((user, Some err), s2)
                        | Returned (Inr impersClientset, user) \<Rightarrow>
                            let user = user\<lparr>nsResources := []\<rparr>;
                                managedClusterNs = map fst mc;
                                (allNamespaces, err) =
                                  intersection allNamespaces managedClusterNs
                            in case rulesReview_loop k impersClientset
                                     allNamespaces (nsResources user) s2 of
                               Returned (m, s) \<Rightarrow>
                                 let user = user\<lparr>nsResources := m\<rparr>;
                                     (now, s) = time_Now k s;
                                     user = user\<lparr>nsrUpdatedAt := now\<rparr>
                                 in Returned ((user, nsrErr user), s)
                               | Panic \<Rightarrow> Panic
                        | Panic \<Rightarrow> Panic) =
     Returned ((user', err), s')"
    using assms unfolding getNamespacedResources_def Returned x by (simp add: f)
  show ?thesis
  proof (cases fresh)
    case True
    with step have "user' = u1\<lparr>nsrErr := None\<rparr>" "s' = s2" by (auto simp: Let_def)
    with Returned x s2 show ?thesis by auto
  next
    case nf: False
    show ?thesis
    proof (cases "shared_namespaces (shared cache) = []")
      case True
      with step nf have "user' = u1" "s' = s2" by (auto simp: Let_def)
      with Returned x s2 show ?thesis by auto
    next
      case ne: False
      show ?thesis
      proof (cases "getImpersonationClientSet k cache tok (u1\<lparr>csrErr := None\<rparr>)")
        case Panic
        with step nf ne show ?thesis by (simp add: Let_def)
      next
        case r2: (Returned y)
        obtain r u2 where y: "y = (r, u2)" by (cases y)
        from getImpersonationClientSet_frame[OF r2[unfolded y]]
        have fr: "nsResources u2 = nsResources u1" "managedClusters u2 = managedClusters u1"
          "csResources u2 = csResources u1" by simp_all
        show ?thesis
        proof (cases r)
          case (Inl err')
          with step nf ne r2 y have "user' = u2" "s' = s2" by (auto simp: Let_def)
          with Returned x s2 fr show ?thesis by auto
        next
          case (Inr c)
          let ?nss = "fst (intersection (shared_namespaces (shared cache)) (map fst mc))"
          show ?thesis
          proof (cases "rulesReview_loop k c ?nss [] s2")
            case Panic
            with step nf ne r2 y Inr show ?thesis
              by (simp add: Let_def split: prod.splits)
          next
            case r3: (Returned z)
            obtain m s3 where z: "z = (m, s3)" by (cases z)
            from step nf ne r2 y Inr r3 z
            have u: "user' = u2\<lparr>nsResources := m, nsrUpdatedAt := clock k (ticks s3)\<rparr>"
              and s': "s' = s3\<lparr>ticks := Suc (ticks s3)\<rparr>"
              by (auto simp: Let_def time_Now_def split: prod.splits)
            from rulesReview_loop_calls[OF r3[unfolded z]] obtain rest where
              "calls s3 = calls s2 @ rest" by blast
            with s2 s' have c: "calls s' = calls s1 @ rest" by simp
            have "rulesReview_loop k c ?nss [] s2 = Returned (nsResources user', s3)"
              using r3 z u by simp
            with Returned x u fr c show ?thesis by auto
          qed
        qed
      qed
    qed
  qed
qed

lemma GetUserData_refresh_lists_namespaces:
  assumes "GetUserData_refresh k ttl cache tok uid client s = Returned (r, cache', s')"
  shows "\<exists>rest. calls s' = calls s @ ListNamespaces # rest"
proof -
  let ?u0 = "case client of Some c \<Rightarrow> new_userData\<lparr>authzClient := Some c\<rparr> | None \<Rightarrow> new_userData"
  let ?cache = "cache\<lparr>users := AList.update uid new_userData (users cache)\<rparr>"
  have u0: "managedClusters ?u0 = []" by (simp add: new_userData_def split: option.splits)
  show ?thesis
  proof (cases "getNamespacedResources k ttl ?cache tok ?u0 s")
    case Panic
    with assms show ?thesis by (simp add: GetUserData_refresh_def Let_def)
  next
    case (Returned x)
    obtain u1 e1 s1 where x: "x = ((u1, e1), s1)" by (cases x) auto
    from getNamespacedResources_analysis[OF Returned[unfolded x]] obtain mc e u2 s2 rest where
      g: "getManagedClusters k ttl ?u0 s = Returned ((mc, e), u2, s2)"
      and c1: "calls s1 = calls s2 @ rest" by blast
    from getManagedClusters_new_calls[OF u0 g] c1
    have c: "calls s1 = calls s @ ListNamespaces # rest" by simp
    show ?thesis
    proof (cases "e1 = None")
      case False
      with assms Returned x have "s' = s1" by (auto simp: GetUserData_refresh_def Let_def)
      with c show ?thesis by simp
    next
      case True
      show ?thesis
      proof (cases "getClusterScopedResources k ?cache tok u1 s1")
        case Panic
        with assms Returned x True show ?thesis by (simp add: GetUserData_refresh_def Let_def)
      next
        case r2: (Returned y)
        obtain r' s3 where y: "y = (r', s3)" by (cases y)
        from getClusterScopedResources_calls[OF r2[unfolded y]] obtain rest' where
          "calls s3 = calls s1 @ rest'" by blast
        moreover from assms Returned x True r2 y have "s' = s3"
          by (auto simp: GetUserData_refresh_def Let_def split: prod.splits)
        ultimately show ?thesis using c by simp
      qed
    qed
  qed
qed

subsection \<open>Freshness\<close>

text \<open>
  C5. Let the cache hold a snapshot whose cluster-scoped and namespace-scoped data were
  both updated at time \<open>T\<close>. The snapshot counts as valid exactly when the two clock
  readings of \<open>userCacheValid\<close> are before \<open>T\<close> plus the TTL. A request whose readings
  are at \<open>T + TTL - \<epsilon>\<close> returns the cached snapshot, leaves the cache as it was and
  calls nothing; a request that reads \<open>T + TTL + \<epsilon>\<close> takes the refresh path, which,
  if it returns, has listed the hub namespaces anew.
\<close>

theorem GetUserData_TTL_boundary:
  assumes "map_of (tokenReviews cache) clientToken = Some review"
    and "map_of (users cache) (UID review) = Some cached"
    and "csrUpdatedAt cached = T" and "nsrUpdatedAt cached = T"
    and "0 < \<epsilon>"
  shows "(fst (userCacheValid k ttl cached s) \<longleftrightarrow>
            clock k (ticks s) < T + UserCacheTTL_Duration ttl \<and>
            clock k (Suc (ticks s)) < T + UserCacheTTL_Duration ttl) \<and>
         (clock k (ticks s) = T + UserCacheTTL_Duration ttl - \<epsilon> \<and>
          clock k (Suc (ticks s)) = T + UserCacheTTL_Duration ttl - \<epsilon> \<longrightarrow>
            GetUserData k ttl cache clientToken client s =
              Returned ((cached, None), cache, s\<lparr>ticks := Suc (Suc (ticks s))\<rparr>)) \<and>
         (clock k (ticks s) = T + UserCacheTTL_Duration ttl + \<epsilon> \<longrightarrow>
            GetUserData k ttl cache clientToken client s =
              GetUserData_refresh k ttl cache clientToken (UID review) client
                (s\<lparr>ticks := Suc (ticks s)\<rparr>) \<and>
            (\<forall>r cache' s'. GetUserData k ttl cache clientToken client s = Returned (r, cache', s')
               \<longrightarrow> (\<exists>rest. calls s' = calls s @ ListNamespaces # rest)))"
proof (intro conjI impI)
  show "fst (userCacheValid k ttl cached s) \<longleftrightarrow>
            clock k (ticks s) < T + UserCacheTTL_Duration ttl \<and>
            clock k (Suc (ticks s)) < T + UserCacheTTL_Duration ttl"
    using assms(3,4) by (simp add: userCacheValid_eq)
next
  assume "clock k (ticks s) = T + UserCacheTTL_Duration ttl - \<epsilon> \<and>
          clock k (Suc (ticks s)) = T + UserCacheTTL_Duration ttl - \<epsilon>"
  then show "GetUserData k ttl cache clientToken client s =
              Returned ((cached, None), cache, s\<lparr>ticks := Suc (Suc (ticks s))\<rparr>)"
    using assms by (simp add: GetUserData_def userCacheValid_eq)
next
  assume a: "clock k (ticks s) = T + UserCacheTTL_Duration ttl + \<epsilon>"
  then show eq: "GetUserData k ttl cache clientToken client s =
              GetUserData_refresh k ttl cache clientToken (UID review) client
                (s\<lparr>ticks := Suc (ticks s)\<rparr>)"
    using assms by (simp add: GetUserData_def userCacheValid_eq)
  show "\<forall>r cache' s'. GetUserData k ttl cache clientToken client s = Returned (r, cache', s')
               \<longrightarrow> (\<exists>rest. calls s' = calls s @ ListNamespaces # rest)"
    using GetUserData_refresh_lists_namespaces[of k ttl cache clientToken "UID review" client
        "s\<lparr>ticks := Suc (ticks s)\<rparr>"] eq by auto
qed

theorem GetUserData_TTL_boundary_witness:
  "UserCacheTTL_Duration 1 = 1000000 \<and>
   csrUpdatedAt sample_cached = 4500000 \<and> nsrUpdatedAt sample_cached = 4500000 \<and>
   GetUserData (sample_kube\<lparr>clock := (\<lambda>n. 5000000)\<rparr>) 1 sample_cache ''token-alice'' None
     sample_sys =
     Returned ((sample_cached, None), sample_cache, \<lparr>ticks = 2, calls = []\<rparr>) \<and>
   GetUserData (sample_kube\<lparr>clock := (\<lambda>n. 6000000)\<rparr>) 1 sample_cache ''token-alice'' None
     sample_sys =
     Returned ((sample_refreshed, None),
       sample_cache\<lparr>users := [(''u-1'', sample_refreshed)]\<rparr>,
       \<lparr>ticks = 4,
        calls = [ListNamespaces, RulesReview ''c1'', AccessReview '''' ''nodes'',
                 AccessReview ''storage.k8s.io'' ''storageclasses'']\<rparr>)"
proof -
  have d: "UserCacheTTL_Duration 1 = 1000000" by (simp add: UserCacheTTL_Duration_def)
  have a: "map_of (tokenReviews sample_cache) ''token-alice'' =
             Some \<lparr>Username = ''alice'', UID = ''u-1''\<rparr>" by simp
  have b: "map_of (users sample_cache) (UID \<lparr>Username = ''alice'', UID = ''u-1''\<rparr>) =
             Some sample_cached" by simp
  have e: "(0::int) < 500000" by simp
  have r: "GetUserData_refresh (sample_kube\<lparr>clock := (\<lambda>n. 6000000)\<rparr>) 1 sample_cache
             ''token-alice'' ''u-1'' None \<lparr>ticks = 1, calls = []\<rparr> =
           Returned ((sample_refreshed, None),
             sample_cache\<lparr>users := [(''u-1'', sample_refreshed)]\<rparr>,
             \<lparr>ticks = 4,
              calls = [ListNamespaces, RulesReview ''c1'', AccessReview '''' ''nodes'',
                       AccessReview ''storage.k8s.io'' ''storageclasses'']\<rparr>)"
    by code_simp
  have early: "GetUserData (sample_kube\<lparr>clock := (\<lambda>n. 5000000)\<rparr>) 1 sample_cache
                 ''token-alice'' None sample_sys =
               Returned ((sample_cached, None), sample_cache, \<lparr>ticks = 2, calls = []\<rparr>)"
    using GetUserData_TTL_boundary
      [where cache = sample_cache and clientToken = "''token-alice''"
         and review = "\<lparr>Username = ''alice'', UID = ''u-1''\<rparr>" and cached = sample_cached
         and T = 4500000 and \<epsilon> = 500000 and ttl = 1 and client = None and s = sample_sys
         and k = "sample_kube\<lparr>clock := (\<lambda>n. 5000000)\<rparr>"] a b e
    by (simp add: d)
  have late: "GetUserData (sample_kube\<lparr>clock := (\<lambda>n. 6000000)\<rparr>) 1 sample_cache
                ''token-alice'' None sample_sys =
              GetUserData_refresh (sample_kube\<lparr>clock := (\<lambda>n. 6000000)\<rparr>) 1 sample_cache
                ''token-alice'' ''u-1'' None \<lparr>ticks = 1, calls = []\<rparr>"
    using GetUserData_TTL_boundary
      [where cache = sample_cache and clientToken = "''token-alice''"
         and review = "\<lparr>Username = ''alice'', UID = ''u-1''\<rparr>" and cached = sample_cached
         and T = 4500000 and \<epsilon> = 500000 and ttl = 1 and client = None and s = sample_sys
         and k = "sample_kube\<lparr>clock := (\<lambda>n. 6000000)\<rparr>"] a b e
    by (simp add: d)
  show ?thesis using early late r d by simp
qed

text \<open>
  C10. \<open>userCacheValid\<close> reads the update times of the cluster-scoped and of the
  namespace-scoped data only. When both are within the TTL, \<open>GetUserData\<close> returns the
  cached snapshot and the cache unchanged and calls nothing, whatever the update time
  \<open>clustersUpdatedAt\<close> of the managed clusters is.
\<close>

theorem GetUserData_ignores_clusters_age:
  assumes "map_of (tokenReviews cache) clientToken = Some review"
    and "map_of (users cache) (UID review) = Some cached"
    and "clock k (ticks s) < csrUpdatedAt cached + UserCacheTTL_Duration ttl"
    and "clock k (Suc (ticks s)) < nsrUpdatedAt cached + UserCacheTTL_Duration ttl"
  shows "GetUserData k ttl cache clientToken client s =
           Returned ((cached, None), cache, s\<lparr>ticks := Suc (Suc (ticks s))\<rparr>) \<and>
         userCacheValid k ttl (cached\<lparr>clustersUpdatedAt := t\<rparr>) s =
           userCacheValid k ttl cached s"
  using assms by (simp add: GetUserData_def userCacheValid_eq)

theorem GetUserData_ignores_clusters_age_witness:
  "GetUserData sample_kube 1 sample_cache ''token-alice'' None sample_sys =
     Returned ((sample_cached, None), sample_cache, \<lparr>ticks = 2, calls = []\<rparr>) \<and>
   clustersUpdatedAt sample_cached = 0 \<and> clock sample_kube 0 = 5000000 \<and>
   UserCacheTTL_Duration 1 = 1000000"
proof -
  have d: "UserCacheTTL_Duration 1 = 1000000" by (simp add: UserCacheTTL_Duration_def)
  have a: "map_of (tokenReviews sample_cache) ''token-alice'' =
             Some \<lparr>Username = ''alice'', UID = ''u-1''\<rparr>" by simp
  have b: "map_of (users sample_cache) (UID \<lparr>Username = ''alice'', UID = ''u-1''\<rparr>) =
             Some sample_cached" by simp
  have c: "clock sample_kube (ticks sample_sys) <
             csrUpdatedAt sample_cached + UserCacheTTL_Duration 1" by (simp add: d)
  have e: "clock sample_kube (Suc (ticks sample_sys)) <
             nsrUpdatedAt sample_cached + UserCacheTTL_Duration 1" by (simp add: d)
  show ?thesis
    using GetUserData_ignores_clusters_age
      [where cache = sample_cache and clientToken = "''token-alice''"
         and review = "\<lparr>Username = ''alice'', UID = ''u-1''\<rparr>" and cached = sample_cached
         and k = sample_kube and s = sample_sys and ttl = 1 and client = None and t = 0]
      a b c e d
    by simp
qed

subsection \<open>An expired entry\<close>

text \<open>
  C6 asks that an expired entry be updated in place. The code puts a new \<open>userData\<close> in
  its place. Here the cached cluster-scoped data are within the TTL, the namespace-scoped
  data are expired, and the refresh of the latter fails because the shared namespace list
  is empty: the request returns the error together with a snapshot that has lost the
  cluster-scoped resources and the impersonation client of the cached one.
\<close>

theorem GetUserData_discards_cached_snapshot:
  "csResources (sample_cached\<lparr>nsrUpdatedAt := 0\<rparr>) = [\<lparr>apigroup = '''', kind = ''nodes''\<rparr>] \<and>
   authzClient (sample_cached\<lparr>nsrUpdatedAt := 0\<rparr>) = Some sample_client \<and>
   clock sample_kube 0 < csrUpdatedAt (sample_cached\<lparr>nsrUpdatedAt := 0\<rparr>) +
                         UserCacheTTL_Duration 1 \<and>
   GetUserData sample_kube 1 sample_cache_failing ''token-alice'' None sample_sys =
     Returned ((sample_discarded, Some ''namespaces not listed''),
       sample_cache_failing\<lparr>users := [(''u-1'', sample_discarded)]\<rparr>,
       \<lparr>ticks = 3, calls = [ListNamespaces]\<rparr>)"
proof -
  have d: "UserCacheTTL_Duration 1 = 1000000" by (simp add: UserCacheTTL_Duration_def)
  have "GetUserData sample_kube 1 sample_cache_failing ''token-alice'' None sample_sys =
     Returned ((sample_discarded, Some ''namespaces not listed''),
       sample_cache_failing\<lparr>users := [(''u-1'', sample_discarded)]\<rparr>,
       \<lparr>ticks = 3, calls = [ListNamespaces]\<rparr>)"
    by code_simp
  then show ?thesis by (simp add: d)
qed

subsection \<open>A failing namespace listing\<close>




subsection \<open>Keys of the namespace-scoped map\<close>

text \<open>
  C8. When \<open>getNamespacedResources\<close> returns, it has either left the namespace-scoped
  map as it found it (the cached map was fresh, the shared namespace list was empty, or
  no impersonation client could be made), or rebuilt it with keys that are shared
  namespaces and keys of the managed-cluster map of the snapshot. \<open>GetUserData\<close> calls it
  on a snapshot with an empty map, for which the inclusion holds in either case.
\<close>

theorem nsResources_keys_within_intersection:
  assumes "getNamespacedResources k ttl cache clientToken user s = Returned ((user', err), s')"
  shows "(nsResources user' = nsResources user \<or>
          fst ` set (nsResources user') \<subseteq>
            set (shared_namespaces (shared cache)) \<inter> fst ` set (managedClusters user')) \<and>
         (nsResources user = [] \<longrightarrow>
          fst ` set (nsResources user') \<subseteq>
            set (shared_namespaces (shared cache)) \<inter> fst ` set (managedClusters user'))"
proof -
  have "nsResources user' = nsResources user \<or>
          fst ` set (nsResources user') \<subseteq>
            set (shared_namespaces (shared cache)) \<inter> fst ` set (managedClusters user')"
  proof -
  from getNamespacedResources_analysis[OF assms] obtain mc e u1 s1 where
    g: "getManagedClusters k ttl user s = Returned ((mc, e), u1, s1)"
    and mcs: "managedClusters user' = managedClusters u1"
    and d: "nsResources user' = nsResources u1 \<or>
            (\<exists>c s2 s3. rulesReview_loop k c
                 (fst (intersection (shared_namespaces (shared cache)) (map fst mc))) [] s2 =
                 Returned (nsResources user', s3))"
    by blast
  from getManagedClusters_frame[OF g]
  have mc: "mc = managedClusters u1" and ns: "nsResources u1 = nsResources user" by simp_all
  from d show ?thesis
  proof
    assume "nsResources user' = nsResources u1"
    with ns show ?thesis by simp
  next
    assume "\<exists>c s2 s3. rulesReview_loop k c
                 (fst (intersection (shared_namespaces (shared cache)) (map fst mc))) [] s2 =
                 Returned (nsResources user', s3)"
    then obtain c s2 s3 where "rulesReview_loop k c
                 (fst (intersection (shared_namespaces (shared cache)) (map fst mc))) [] s2 =
                 Returned (nsResources user', s3)" by blast
    from keys_rulesReview_loop[OF this]
    have "fst ` set (nsResources user') \<subseteq>
            set (shared_namespaces (shared cache)) \<inter> fst ` set mc"
      by (simp add: set_intersection)
    with mc mcs show ?thesis by simp
  qed
  qed
  then show ?thesis by auto
qed

theorem nsResources_keys_within_intersection_witness:
  "getNamespacedResources sample_kube 1 sample_cache ''token-alice'' new_userData sample_sys =
     Returned ((\<lparr>managedClusters = [(''c1'', sample_label), (''c2'', sample_label)],
                 csResources = [],
                 nsResources = [(''c1'', [\<lparr>apigroup = ''apps'', kind = ''deployments''\<rparr>])],
                 clustersErr = None, clustersUpdatedAt = 5000000,
                 csrErr = None, csrUpdatedAt = 0,
                 nsrErr = None, nsrUpdatedAt = 5000001,
                 authzClient = Some sample_client\<rparr>, None),
               \<lparr>ticks = 2, calls = [ListNamespaces, RulesReview ''c1'']\<rparr>) \<and>
   fst ` set [(''c1'', [\<lparr>apigroup = ''apps'', kind = ''deployments''\<rparr>])] \<subseteq>
     set (shared_namespaces (shared sample_cache)) \<inter>
     fst ` set [(''c1'', sample_label), (''c2'', sample_label)]"
proof -
  have r: "getNamespacedResources sample_kube 1 sample_cache ''token-alice'' new_userData
             sample_sys =
     Returned ((\<lparr>managedClusters = [(''c1'', sample_label), (''c2'', sample_label)],
                 csResources = [],
                 nsResources = [(''c1'', [\<lparr>apigroup = ''apps'', kind = ''deployments''\<rparr>])],
                 clustersErr = None, clustersUpdatedAt = 5000000,
                 csrErr = None, csrUpdatedAt = 0,
                 nsrErr = None, nsrUpdatedAt = 5000001,
                 authzClient = Some sample_client\<rparr>, None),
               \<lparr>ticks = 2, calls = [ListNamespaces, RulesReview ''c1'']\<rparr>)"
    by code_simp
  show ?thesis
    using nsResources_keys_within_intersection [OF r] r by (simp add: new_userData_def)
qed

end
